theory Spec2Isabelle
  imports Complex_Main "HOL-Library.AList"
begin

section \<open>Strings, numbers and paths as the Python code uses them\<close>

text \<open>
  The development embeds \<^verbatim>\<open>temp_solution.py\<close>: \<^verbatim>\<open>process_photo\<close>, its helpers and the
  per-asset loop of \<^verbatim>\<open>download_all_photos\<close>. Python strings and byte strings are
  \<^typ>\<open>string\<close>; library functions (\<^verbatim>\<open>os.path\<close>, \<^verbatim>\<open>str\<close>, format specs) are written
  out for POSIX paths.
\<close>

type_synonym bytes = string

definition digit_char :: "nat \<Rightarrow> char" where
  "digit_char d = ''0123456789'' ! d"

text \<open>\<^verbatim>\<open>str(n)\<close> for a non-negative integer.\<close>

fun str_nat :: "nat \<Rightarrow> string" where
  "str_nat n = (if n < 10 then [digit_char n] else str_nat (n div 10) @ [digit_char (n mod 10)])"

declare str_nat.simps [simp del]

text \<open>\<^verbatim>\<open>f"{n:0wd}"\<close>: decimal digits, padded with zeros on the left to width \<open>w\<close>.\<close>

definition zero_pad :: "nat \<Rightarrow> nat \<Rightarrow> string" where
  "zero_pad w n = replicate (w - length (str_nat n)) (CHR ''0'') @ str_nat n"

text \<open>The value of a digit string, used to show that the rendering loses nothing.\<close>

definition digit_val :: "char \<Rightarrow> nat" where
  "digit_val c = length (takeWhile (\<lambda>d. d \<noteq> c) ''0123456789'') mod 10"

definition dec_val :: "string \<Rightarrow> nat" where
  "dec_val s = foldl (\<lambda>a c. 10 * a + digit_val c) 0 s"

definition lower_char :: "char \<Rightarrow> char" where
  "lower_char c = (case map_of (zip ''ABCDEFGHIJKLMNOPQRSTUVWXYZ'' ''abcdefghijklmnopqrstuvwxyz'') c of
      Some l \<Rightarrow> l | None \<Rightarrow> c)"

text \<open>\<^verbatim>\<open>str.lower()\<close> on ASCII.\<close>

definition lower :: "string \<Rightarrow> string" where
  "lower s = map lower_char s"

definition startswith :: "string \<Rightarrow> string \<Rightarrow> bool" where
  "startswith s p = (take (length p) s = p)"

definition endswith :: "string \<Rightarrow> string \<Rightarrow> bool" where
  "endswith s p = (length p \<le> length s \<and> drop (length s - length p) s = p)"

text \<open>\<^verbatim>\<open>posixpath.join(a, b)\<close>: an absolute \<open>b\<close> replaces \<open>a\<close>.\<close>

definition os_path_join :: "string \<Rightarrow> string \<Rightarrow> string" where
  "os_path_join a b =
     (if startswith b ''/'' then b
      else if a = [] \<or> endswith a ''/'' then a @ b
      else a @ ''/'' @ b)"

text \<open>The part of a path after the last separator, and the part up to and including it.\<close>

definition os_path_basename :: "string \<Rightarrow> string" where
  "os_path_basename p = rev (takeWhile (\<lambda>c. c \<noteq> CHR ''/'') (rev p))"

definition path_head :: "string \<Rightarrow> string" where
  "path_head p = rev (dropWhile (\<lambda>c. c \<noteq> CHR ''/'') (rev p))"

text \<open>\<^verbatim>\<open>posixpath.dirname\<close>: the head, without trailing separators unless it is all separators.\<close>

definition os_path_dirname :: "string \<Rightarrow> string" where
  "os_path_dirname p =
     (let h = path_head p in
      if h \<noteq> [] \<and> \<not> list_all (\<lambda>c. c = CHR ''/'') h
      then rev (dropWhile (\<lambda>c. c = CHR ''/'') (rev h)) else h)"

text \<open>
  \<^verbatim>\<open>posixpath.splitext\<close>: the extension starts at the last dot of the last component,
  unless only dots precede it there.
\<close>

definition os_path_splitext :: "string \<Rightarrow> string \<times> string" where
  "os_path_splitext p =
     (let b = os_path_basename p in
      if CHR ''.'' \<notin> set b then (p, [])
      else
        let e = rev (takeWhile (\<lambda>c. c \<noteq> CHR ''.'') (rev b));
            pre = rev (tl (dropWhile (\<lambda>c. c \<noteq> CHR ''.'') (rev b)))
        in if list_all (\<lambda>c. c = CHR ''.'') pre then (p, [])
           else (path_head p @ pre, CHR ''.'' # e))"

text \<open>\<^verbatim>\<open>get_file_type_folder\<close> (lines 76-96).\<close>

definition type_mapping :: "(string \<times> string) list" where
  "type_mapping =
     [(''.heic'', ''HEIC''), (''.jpg'', ''JPEG''), (''.jpeg'', ''JPEG''), (''.png'', ''PNG''),
      (''.mov'', ''Videos''), (''.mp4'', ''Videos''), (''.m4v'', ''Videos''), (''.gif'', ''GIF''),
      (''.raw'', ''RAW''), (''.dng'', ''RAW''), (''.cr2'', ''RAW''), (''.arw'', ''RAW'')]"

definition get_file_type_folder :: "string \<Rightarrow> string" where
  "get_file_type_folder filename =
     (let ext = lower (snd (os_path_splitext filename)) in
      case map_of type_mapping ext of Some t \<Rightarrow> t | None \<Rightarrow> ''Others'')"

section \<open>The world \<^verbatim>\<open>process_photo\<close> acts on\<close>

text \<open>
  A \<^verbatim>\<open>datetime\<close> with the fields the code reads. \<^verbatim>\<open>strftime("%Y%m%d_%H%M%S")\<close> pads
  every field with zeros.
\<close>

record datetime =
  dt_year :: nat
  dt_month :: nat
  dt_day :: nat
  dt_hour :: nat
  dt_minute :: nat
  dt_second :: nat

definition strftime_compact :: "datetime \<Rightarrow> string" where
  "strftime_compact d =
     zero_pad 4 (dt_year d) @ zero_pad 2 (dt_month d) @ zero_pad 2 (dt_day d) @ ''_'' @
     zero_pad 2 (dt_hour d) @ zero_pad 2 (dt_minute d) @ zero_pad 2 (dt_second d)"

text \<open>
  A file on disk: its bytes and the modification time set by \<^verbatim>\<open>os.utime\<close>
  (\<open>None\<close>: the time of the last write).
\<close>

record disk_file =
  content :: bytes
  mtime :: "datetime option"

text \<open>
  The key of the uniqueness check (line 345):
  \<^verbatim>\<open>(photo_id, date_str, photo_hash, photo_size)\<close>, the hash being a hex digest.
\<close>

type_synonym unique_key = "string option \<times> string \<times> string \<times> nat"

text \<open>
  The \<^verbatim>\<open>stats\<close> dictionary: a section maps to a dictionary whose values are either a
  count (album branch, line 372) or a dictionary from year to count (line 378). A year
  is an \<^verbatim>\<open>int\<close> or the string \<^verbatim>\<open>"unknown_year"\<close>.
\<close>

datatype year_key = Year nat | Unknown_year

datatype stat_entry = Count nat | Years "(year_key \<times> nat) list"

type_synonym stats = "(string \<times> (string \<times> stat_entry) list) list"

text \<open>
  What \<^verbatim>\<open>process_photo\<close> reads and mutates: the files and directories under the output
  root, the paths on which the file system refuses to create, write or move
  (\<^verbatim>\<open>OSError\<close>), the temporary files of \<^verbatim>\<open>tempfile.NamedTemporaryFile(delete=False)\<close>
  (named by a counter), and the two objects passed by reference, \<^verbatim>\<open>unique_photo_keys\<close>
  and \<^verbatim>\<open>stats\<close>.
\<close>

record pstate =
  files :: "(string \<times> disk_file) list"
  dirs :: "string list"
  denied :: "string list"
  tmp :: "(nat \<times> bytes) list"
  tmp_next :: nat
  unique_photo_keys :: "unique_key set"
  stats :: stats

definition os_path_exists :: "pstate \<Rightarrow> string \<Rightarrow> bool" where
  "os_path_exists s p = (p \<in> fst ` set (files s) \<or> p \<in> set (dirs s))"

section \<open>The filename conflict loop (lines 350-356)\<close>

text \<open>The name tried at a given value of \<^verbatim>\<open>counter\<close>: \<^verbatim>\<open>f"{name}_{counter:03d}{ext}"\<close>.\<close>

definition suffixed :: "string \<Rightarrow> nat \<Rightarrow> string" where
  "suffixed base_filename counter =
     (let (name, ext) = os_path_splitext base_filename
      in name @ ''_'' @ zero_pad 3 counter @ ext)"

text \<open>
  The loop ends because distinct counters give distinct paths and only finitely many
  paths exist: the suffixed paths still to be met that exist are the measure.
\<close>

lemma digit_val_digit_char: "d < 10 \<Longrightarrow> digit_val (digit_char d) = d"
proof -
  assume "d < 10"
  then have "d \<in> {0, 1, 2, 3, 4, 5, 6, 7, 8, 9}" by auto
  then show ?thesis
    by (auto simp: digit_val_def digit_char_def)
qed

lemma dec_val_snoc: "dec_val (s @ [c]) = 10 * dec_val s + digit_val c"
  by (simp add: dec_val_def)

lemma dec_val_str_nat: "dec_val (str_nat n) = n"
proof (induction n rule: str_nat.induct)
  case (1 n)
  show ?case
  proof (cases "n < 10")
    case True
    then show ?thesis
      by (subst str_nat.simps) (simp add: dec_val_def digit_val_digit_char)
  next
    case False
    then have "dec_val (str_nat (n div 10)) = n div 10" using 1 by simp
    with False show ?thesis
      by (subst str_nat.simps) (simp add: dec_val_snoc digit_val_digit_char)
  qed
qed

lemma dec_val_zeros: "dec_val (replicate k (CHR ''0'') @ s) = dec_val s"
  by (induction k) (simp_all add: dec_val_def digit_val_def)

lemma dec_val_zero_pad: "dec_val (zero_pad w n) = n"
  by (simp add: zero_pad_def dec_val_zeros dec_val_str_nat)

lemma zero_pad_inj: "zero_pad w m = zero_pad w n \<Longrightarrow> m = n"
  by (metis dec_val_zero_pad)

lemma suffixed_inj: "suffixed b m = suffixed b n \<Longrightarrow> m = n"
  by (auto simp: suffixed_def split: prod.splits dest: zero_pad_inj)

lemma startswith_suffixed:
  "startswith (suffixed b m) ''/'' = startswith (suffixed b n) ''/''"
  by (cases "fst (os_path_splitext b)") (auto simp: suffixed_def startswith_def split: prod.splits)

lemma os_path_join_inj:
  "startswith x ''/'' = startswith y ''/'' \<Longrightarrow> os_path_join d x = os_path_join d y \<Longrightarrow> x = y"
  by (auto simp: os_path_join_def split: if_splits)

lemma candidate_inj:
  "os_path_join d (suffixed b m) = os_path_join d (suffixed b n) \<Longrightarrow> m = n"
  using os_path_join_inj [OF startswith_suffixed] suffixed_inj by blast

lemma finite_candidates: "finite {c. os_path_join d (suffixed b c) \<in> set ex}"
proof -
  have "inj (\<lambda>c. os_path_join d (suffixed b c))"
    by (rule injI) (rule candidate_inj)
  then have "finite ((\<lambda>c. os_path_join d (suffixed b c)) -` set ex)"
    by (intro finite_vimageI) simp_all
  then show ?thesis by (simp add: vimage_def)
qed

definition pending :: "string list \<Rightarrow> string \<Rightarrow> string \<Rightarrow> nat \<Rightarrow> nat set" where
  "pending ex d b c = {c'. c \<le> c' \<and> os_path_join d (suffixed b c') \<in> set ex}"

lemma finite_pending: "finite (pending ex d b c)"
  by (rule finite_subset [OF _ finite_candidates [of d b ex]]) (auto simp: pending_def)

lemma pending_step:
  "card (pending ex d b (Suc c)) + (if os_path_join d (suffixed b c) \<in> set ex then 1 else 0)
     = card (pending ex d b c)"
proof (cases "os_path_join d (suffixed b c) \<in> set ex")
  case True
  have "pending ex d b c = insert c (pending ex d b (Suc c))"
    using True by (auto simp: pending_def le_Suc_eq Suc_le_eq)
  moreover have "c \<notin> pending ex d b (Suc c)" by (simp add: pending_def)
  ultimately show ?thesis using True finite_pending by simp
next
  case False
  have "pending ex d b c = pending ex d b (Suc c)"
    using False by (auto simp: pending_def Suc_le_eq le_less)
  then show ?thesis using False by simp
qed

text \<open>
  \<^verbatim>\<open>while os.path.exists(filepath): ...\<close> with the loop variables \<^verbatim>\<open>counter\<close>,
  \<^verbatim>\<open>filename\<close> and \<^verbatim>\<open>filepath\<close>; \<open>ex\<close> lists the paths that exist.
\<close>

function resolve_conflict ::
  "string list \<Rightarrow> string \<Rightarrow> string \<Rightarrow> nat \<Rightarrow> string \<Rightarrow> string \<Rightarrow> string \<times> string \<times> nat" where
  "resolve_conflict ex photo_dir base_filename counter fname filepath =
     (if filepath \<in> set ex
      then resolve_conflict ex photo_dir base_filename (counter + 1)
             (suffixed base_filename counter)
             (os_path_join photo_dir (suffixed base_filename counter))
      else (fname, filepath, counter))"
  by pat_completeness auto
termination
proof (relation "measure (\<lambda>(ex, d, b, c, fn, fp).
          card (pending ex d b c) + (if fp \<in> set ex then 1 else 0))", goal_cases)
  case 1
  show ?case by simp
next
  case (2 ex photo_dir base_filename counter fname filepath)
  then show ?case
    using pending_step [of ex photo_dir base_filename counter] by simp
qed

declare resolve_conflict.simps [simp del]

section \<open>Assets\<close>

text \<open>
  An attribute probed with \<^verbatim>\<open>hasattr\<close> is missing, present with the value \<^verbatim>\<open>None\<close>, or
  present with a value.
\<close>

datatype 'a attr = Missing | Is_None | Has 'a

text \<open>
  The values found in a location dictionary: \<^verbatim>\<open>None\<close>, a number (a finite float, by
  its exact value) or a nested dictionary.
\<close>

datatype pyval = PNone | PNum rat | PDict "(string \<times> pyval) list"

text \<open>
  \<^verbatim>\<open>getattr(photo, 'location', None)\<close>: nothing, a dictionary, or a tuple or list.
\<close>

datatype pyloc = No_location | Loc_dict "(string \<times> pyval) list" | Loc_seq "pyval list"

text \<open>
  \<^verbatim>\<open>photo._asset_record['fields']['locationEnc']\<close> after base64 and plist decoding:
  no such field, a decoding error, a dictionary, or another plist value.
\<close>

datatype enc_loc = No_enc | Enc_error | Enc_dict "(string \<times> pyval) list" | Enc_other

text \<open>
  What \<^verbatim>\<open>photo.download(...)\<close> followed by \<^verbatim>\<open>.raw.read()\<close> gives: the call raises, the
  call returns and reading its result raises, or the bytes arrive.
\<close>

datatype fetch = Fetch_error | Read_error | Fetched bytes

text \<open>
  The remote asset as the code sees it. \<open>download_original\<close> stands for
  \<^verbatim>\<open>photo.download()\<close> and \<open>download_video\<close> for \<^verbatim>\<open>photo.download(version='video')\<close>. A
  version is a dictionary of strings.
\<close>

record photo =
  id_attr :: "string option"
  filename_attr :: "string option"
  created_attr :: "datetime attr"
  location_attr :: pyloc
  location_enc :: enc_loc
  versions_attr :: "(string \<times> (string \<times> string) list) list option"
  download_original :: fetch
  download_video :: fetch

text \<open>
  The two library routines left open: the SHA-256 hex digest of \<^verbatim>\<open>compute_sha256\<close>,
  and the EXIF rewriting of \<^verbatim>\<open>piexif.insert\<close>, which gets the creation date and the
  location that \<^verbatim>\<open>save_metadata\<close> reads from the photo (\<open>None\<close>: it raises).
\<close>

record lib =
  sha256 :: "bytes \<Rightarrow> string"
  exif_insert :: "datetime attr \<Rightarrow> pyloc \<Rightarrow> bytes \<Rightarrow> bytes option"

section \<open>\<^verbatim>\<open>get_location_name\<close> (lines 98-156)\<close>

definition truthy :: "pyval \<Rightarrow> bool" where
  "truthy v = (case v of PNone \<Rightarrow> False | PNum x \<Rightarrow> x \<noteq> 0 | PDict kvs \<Rightarrow> kvs \<noteq> [])"

text \<open>Python's \<^verbatim>\<open>a or b\<close>.\<close>

definition py_or :: "pyval \<Rightarrow> pyval \<Rightarrow> pyval" where
  "py_or a b = (if truthy a then a else b)"

text \<open>\<^verbatim>\<open>d.get(k)\<close>.\<close>

definition dict_get :: "(string \<times> pyval) list \<Rightarrow> string \<Rightarrow> pyval" where
  "dict_get kvs k = (case map_of kvs k of Some v \<Rightarrow> v | None \<Rightarrow> PNone)"

text \<open>\<^verbatim>\<open>float(v)\<close>: a dictionary raises \<^verbatim>\<open>TypeError\<close>.\<close>

definition py_float :: "pyval \<Rightarrow> rat option" where
  "py_float v = (case v of PNum x \<Rightarrow> Some x | _ \<Rightarrow> None)"

text \<open>Rounding to the nearest integer, ties to even, as \<^verbatim>\<open>round\<close> does.\<close>

definition round_half_even :: "rat \<Rightarrow> int" where
  "round_half_even y =
     (let f = \<lfloor>y\<rfloor>; d = y - of_int f in
      if d < 1 / 2 then f else if 1 / 2 < d then f + 1 else if even f then f else f + 1)"

text \<open>
  \<^verbatim>\<open>f"{round(float(x), 2)}"\<close>: the shortest decimal of the rounded value, with at least
  one digit after the point (for magnitudes below \<open>10^15\<close>, which covers coordinates).
\<close>

definition fmt_round2 :: "rat \<Rightarrow> string" where
  "fmt_round2 x =
     (let h = nat \<bar>round_half_even (x * 100)\<bar>; a = h div 100; b = h mod 100 in
      (if x < 0 then ''-'' else []) @ str_nat a @ ''.'' @
      (if b mod 10 = 0 then [digit_char (b div 10)] else zero_pad 2 b))"

text \<open>
  One attempt to name the bucket from a latitude and a longitude: the name, an exception
  raised by \<^verbatim>\<open>float\<close>, or no coordinates (the code goes on to the next source).
\<close>

datatype name_try = Named string | Raised_exn | No_coords

definition format_coords :: "pyval \<Rightarrow> pyval \<Rightarrow> name_try" where
  "format_coords lat lon =
     (if lat \<noteq> PNone \<and> lon \<noteq> PNone then
        (case py_float lat of None \<Rightarrow> Raised_exn
         | Some a \<Rightarrow> (case py_float lon of None \<Rightarrow> Raised_exn
            | Some b \<Rightarrow> Named (''Lat'' @ fmt_round2 a @ ''_Lon'' @ fmt_round2 b)))
      else No_coords)"

text \<open>Lines 106-107 and 123-124: \<^verbatim>\<open>d.get('latitude') or d.get('lat')\<close>, and the same for the longitude.\<close>

definition dict_coords :: "(string \<times> pyval) list \<Rightarrow> name_try" where
  "dict_coords d =
     format_coords (py_or (dict_get d ''latitude'') (dict_get d ''lat''))
                   (py_or (dict_get d ''longitude'') (dict_get d ''lon''))"

text \<open>Lines 102-128: the standard location attribute.\<close>

definition standard_location :: "pyloc \<Rightarrow> name_try" where
  "standard_location loc =
     (case loc of
        No_location \<Rightarrow> No_coords
      | Loc_dict d \<Rightarrow>
          if d = [] then No_coords
          else (case dict_coords d of
                  No_coords \<Rightarrow>
                    (case map_of d ''location'' of
                       Some (PDict nested) \<Rightarrow> dict_coords nested
                     | _ \<Rightarrow> No_coords)
                | r \<Rightarrow> r)
      | Loc_seq vs \<Rightarrow>
          (case vs of [lat, lon] \<Rightarrow> format_coords lat lon | _ \<Rightarrow> No_coords))"

text \<open>Lines 131-150: the encoded location, read with plain \<^verbatim>\<open>get('lat')\<close> and \<^verbatim>\<open>get('lon')\<close>.\<close>

definition encoded_location :: "enc_loc \<Rightarrow> name_try" where
  "encoded_location e =
     (case e of
        Enc_dict d \<Rightarrow> format_coords (dict_get d ''lat'') (dict_get d ''lon'')
      | Enc_error \<Rightarrow> Raised_exn
      | _ \<Rightarrow> No_coords)"

definition get_location_name :: "photo \<Rightarrow> string" where
  "get_location_name p =
     (case standard_location (location_attr p) of
        Named n \<Rightarrow> n
      | Raised_exn \<Rightarrow> ''Unknown_Location''
      | No_coords \<Rightarrow>
          (case encoded_location (location_enc p) of
             Named n \<Rightarrow> n
           | _ \<Rightarrow> ''Unknown_Location''))"

section \<open>File system operations\<close>

text \<open>
  \<^verbatim>\<open>os.makedirs(p, exist_ok=True)\<close>: \<open>None\<close> is the \<^verbatim>\<open>OSError\<close> raised on a refused path or
  on a path that is a regular file. Only the directory itself is recorded; its
  ancestors are not tracked.
\<close>

definition os_makedirs :: "string \<Rightarrow> pstate \<Rightarrow> pstate option" where
  "os_makedirs p s =
     (if p \<in> set (denied s) \<or> p \<in> fst ` set (files s) then None
      else Some (s\<lparr>dirs := List.insert p (dirs s)\<rparr>))"

text \<open>
  \<^verbatim>\<open>shutil.move(tmp_file_path, dst)\<close> for a temporary file \<open>t\<close>; the caller passes a
  \<open>dst\<close> that does not exist.
\<close>

definition shutil_move :: "nat \<Rightarrow> string \<Rightarrow> pstate \<Rightarrow> pstate option" where
  "shutil_move t dst s =
     (case map_of (tmp s) t of
        None \<Rightarrow> None
      | Some bs \<Rightarrow>
          if dst \<in> set (denied s) then None
          else Some (s\<lparr>files := AList.update dst \<lparr>content = bs, mtime = None\<rparr> (files s),
                       tmp := AList.delete t (tmp s)\<rparr>))"

text \<open>\<^verbatim>\<open>os.remove(tmp_file_path)\<close>.\<close>

definition os_remove :: "nat \<Rightarrow> pstate \<Rightarrow> pstate" where
  "os_remove t s = s\<lparr>tmp := AList.delete t (tmp s)\<rparr>"

text \<open>
  \<^verbatim>\<open>preserve_original_timestamps\<close> (lines 178-185): \<^verbatim>\<open>os.utime\<close> on an existing file; a
  failure is only printed.
\<close>

definition preserve_original_timestamps :: "string \<Rightarrow> datetime \<Rightarrow> pstate \<Rightarrow> pstate" where
  "preserve_original_timestamps filepath created_date s =
     (case map_of (files s) filepath of
        None \<Rightarrow> s
      | Some f \<Rightarrow> s\<lparr>files := AList.update filepath (f\<lparr>mtime := Some created_date\<rparr>) (files s)\<rparr>)"

text \<open>
  \<^verbatim>\<open>save_metadata\<close> (lines 187-224): JPEG files are rewritten with the EXIF block; a
  failure is only printed.
\<close>

definition save_metadata :: "lib \<Rightarrow> photo \<Rightarrow> string \<Rightarrow> pstate \<Rightarrow> pstate" where
  "save_metadata L p filepath s =
     (if endswith (lower filepath) ''.jpg'' \<or> endswith (lower filepath) ''.jpeg'' then
        (case map_of (files s) filepath of
           None \<Rightarrow> s
         | Some f \<Rightarrow>
             (case exif_insert L (created_attr p) (location_attr p) (content f) of
                None \<Rightarrow> s
              | Some c \<Rightarrow> s\<lparr>files := AList.update filepath \<lparr>content = c, mtime = None\<rparr> (files s)\<rparr>))
      else s)"

section \<open>\<^verbatim>\<open>handle_live_photo\<close> (lines 226-258)\<close>

text \<open>Line 233: \<^verbatim>\<open>'type' in version and version['type'] == 'video'\<close>.\<close>

definition is_video_version :: "(string \<times> string) list \<Rightarrow> bool" where
  "is_video_version version = (map_of version ''type'' = Some ''video'')"

text \<open>Lines 239-240.\<close>

definition live_video_path :: "string \<Rightarrow> string \<Rightarrow> string" where
  "live_video_path base_path fname =
     os_path_join (os_path_join (os_path_dirname base_path) ''Videos'')
       (fst (os_path_splitext fname) @ ''.mov'')"

text \<open>\<^verbatim>\<open>open(video_path, 'wb')\<close>: the file is created empty, or emptied; \<open>None\<close> when it raises.\<close>

definition open_wb :: "string \<Rightarrow> pstate \<Rightarrow> pstate option" where
  "open_wb path s =
     (if path \<in> set (denied s) \<or> path \<in> set (dirs s) then None
      else Some (s\<lparr>files := AList.update path \<lparr>content = [], mtime = None\<rparr> (files s)\<rparr>))"

text \<open>
  Every exception is caught and the function then returns \<^verbatim>\<open>False\<close>. The file is
  opened (lines 246-248) after \<^verbatim>\<open>photo.download\<close> has returned and before its result
  is read.
\<close>

definition handle_live_photo :: "photo \<Rightarrow> string \<Rightarrow> string \<Rightarrow> pstate \<Rightarrow> bool \<times> pstate" where
  "handle_live_photo p base_path fname s =
     (case versions_attr p of
        None \<Rightarrow> (False, s)
      | Some vs \<Rightarrow>
          (case find is_video_version (map snd vs) of
             None \<Rightarrow> (False, s)
           | Some live_photo_video \<Rightarrow>
               (let video_path = live_video_path base_path fname in
                case os_makedirs (os_path_dirname video_path) s of
                  None \<Rightarrow> (False, s)
                | Some s1 \<Rightarrow>
                    (case download_video p of
                       Fetch_error \<Rightarrow> (False, s1)
                     | r \<Rightarrow>
                         (case open_wb video_path s1 of
                            None \<Rightarrow> (False, s1)
                          | Some s2 \<Rightarrow>
                              (case r of
                                 Fetched video_bytes \<Rightarrow>
                                   (let s3 = s2\<lparr>files := AList.update video_path
                                                  \<lparr>content = video_bytes, mtime = None\<rparr> (files s2)\<rparr>
                                    in (True,
                                        case created_attr p of
                                          Has d \<Rightarrow> preserve_original_timestamps video_path d s3
                                        | _ \<Rightarrow> s3))
                               | _ \<Rightarrow> (False, s2)))))))"

section \<open>\<^verbatim>\<open>process_photo\<close> (lines 296-385)\<close>

text \<open>
  Where the exception caught at line 383 was raised: \<^verbatim>\<open>None.year\<close> (line 304), creating
  the directory (lines 317-331), the download (lines 338-339), the move (line 359), the
  statistics (lines 369-381).
\<close>

datatype failure = Bad_created | Mkdir_failed | Download_failed | Move_failed | Stats_failed

text \<open>
  How a call ends: \<^verbatim>\<open>return True, is_live_photo, filepath\<close> (line 382), the
  \<^verbatim>\<open>return False, False, None\<close> of a duplicate (line 348), the same triple returned by
  the handler (line 385) after an exception, or an exception that leaves the function
  (the handler itself reads \<^verbatim>\<open>photo.filename\<close>).
\<close>

datatype presult = Success bool string | Duplicate | Failed failure | Escaped

text \<open>The triple the caller receives, when there is one.\<close>

definition py_return :: "presult \<Rightarrow> (bool \<times> bool \<times> string option) option" where
  "py_return r =
     (case r of
        Success is_live filepath \<Rightarrow> Some (True, is_live, Some filepath)
      | Duplicate \<Rightarrow> Some (False, False, None)
      | Failed e \<Rightarrow> Some (False, False, None)
      | Escaped \<Rightarrow> None)"

definition is_success :: "presult \<Rightarrow> bool" where
  "is_success r = (case r of Success is_live filepath \<Rightarrow> True | _ \<Rightarrow> False)"

text \<open>\<^verbatim>\<open>str(year)\<close>.\<close>

definition str_year :: "year_key \<Rightarrow> string" where
  "str_year y = (case y of Year n \<Rightarrow> str_nat n | Unknown_year \<Rightarrow> ''unknown_year'')"

text \<open>
  Lines 302-308: \<^verbatim>\<open>year\<close> and \<^verbatim>\<open>date_str\<close>; \<open>None\<close> is the \<^verbatim>\<open>AttributeError\<close> of
  \<^verbatim>\<open>None.year\<close>.
\<close>

definition created_parts :: "photo \<Rightarrow> (year_key \<times> string) option" where
  "created_parts p =
     (case created_attr p of
        Missing \<Rightarrow> Some (Unknown_year, ''unknown_date'')
      | Is_None \<Rightarrow> None
      | Has d \<Rightarrow> Some (Year (dt_year d), strftime_compact d))"

text \<open>
  \<^verbatim>\<open>create_type_year_directory\<close> and \<^verbatim>\<open>create_location_year_directory\<close> (lines 158-176)
  have the same body: two nested directories, each created in turn.
\<close>

definition create_type_year_directory ::
  "string \<Rightarrow> string \<Rightarrow> year_key \<Rightarrow> pstate \<Rightarrow> string option \<times> pstate" where
  "create_type_year_directory base_dir file_type yr s =
     (let type_dir = os_path_join base_dir file_type in
      case os_makedirs type_dir s of
        None \<Rightarrow> (None, s)
      | Some s1 \<Rightarrow>
          (let year_dir = os_path_join type_dir (str_year yr) in
           case os_makedirs year_dir s1 of
             None \<Rightarrow> (None, s1)
           | Some s2 \<Rightarrow> (Some year_dir, s2)))"

definition create_location_year_directory ::
  "string \<Rightarrow> string \<Rightarrow> year_key \<Rightarrow> pstate \<Rightarrow> string option \<times> pstate" where
  "create_location_year_directory base_dir location_name yr s =
     (let location_dir = os_path_join base_dir location_name in
      case os_makedirs location_dir s of
        None \<Rightarrow> (None, s)
      | Some s1 \<Rightarrow>
          (let year_dir = os_path_join location_dir (str_year yr) in
           case os_makedirs year_dir s1 of
             None \<Rightarrow> (None, s1)
           | Some s2 \<Rightarrow> (Some year_dir, s2)))"

text \<open>\<^verbatim>\<open>if album_name:\<close> holds for a name that is neither \<^verbatim>\<open>None\<close> nor empty.\<close>

definition album_given :: "string option \<Rightarrow> bool" where
  "album_given album_name = (case album_name of None \<Rightarrow> False | Some n \<Rightarrow> n \<noteq> [])"

definition album_str :: "string option \<Rightarrow> string" where
  "album_str album_name = (case album_name of None \<Rightarrow> [] | Some n \<Rightarrow> n)"

text \<open>Lines 315-331: the directory of the photo; \<open>None\<close> when a directory cannot be created.\<close>

definition make_photo_dir ::
  "photo \<Rightarrow> string \<Rightarrow> string \<Rightarrow> string option \<Rightarrow> bool \<Rightarrow> string \<Rightarrow> year_key \<Rightarrow> pstate
     \<Rightarrow> string option \<times> pstate" where
  "make_photo_dir p base_dir photo_type album_name use_location_organization file_type yr s =
     (if album_given album_name then
        (let photo_dir = os_path_join (os_path_join base_dir ''Shared_Albums'') (album_str album_name) in
         case os_makedirs photo_dir s of
           None \<Rightarrow> (None, s)
         | Some s1 \<Rightarrow> (Some photo_dir, s1))
      else if use_location_organization then
        create_location_year_directory (os_path_join base_dir photo_type) (get_location_name p) yr s
      else
        create_type_year_directory (os_path_join base_dir photo_type) file_type yr s)"

text \<open>
  Lines 337-343: the temporary file is created first, then filled with the download; a
  failed download leaves it behind, empty. The result is its name and its bytes.
\<close>

definition stage_original :: "photo \<Rightarrow> pstate \<Rightarrow> (nat \<times> bytes) option \<times> pstate" where
  "stage_original p s =
     (let t = tmp_next s;
          s1 = s\<lparr>tmp := AList.update t [] (tmp s), tmp_next := t + 1\<rparr> in
      case download_original p of
        Fetched bs \<Rightarrow> (Some (t, bs), s1\<lparr>tmp := AList.update t bs (tmp s1)\<rparr>)
      | _ \<Rightarrow> (None, s1))"

text \<open>Lines 368-381: one leaf is created if need be and incremented; \<open>None\<close> is a \<^verbatim>\<open>TypeError\<close>
  (a count where a dictionary is expected, or the reverse).\<close>

definition update_stats ::
  "string \<Rightarrow> string option \<Rightarrow> string \<Rightarrow> year_key \<Rightarrow> stats \<Rightarrow> stats option" where
  "update_stats photo_type album_name file_type yr st =
     (if album_given album_name then
        (let d = (case map_of st ''Shared_Albums'' of None \<Rightarrow> [] | Some d \<Rightarrow> d) in
         case map_of d (album_str album_name) of
           None \<Rightarrow>
             Some (AList.update ''Shared_Albums'' (AList.update (album_str album_name) (Count 1) d) st)
         | Some (Count n) \<Rightarrow>
             Some (AList.update ''Shared_Albums'' (AList.update (album_str album_name) (Count (n + 1)) d) st)
         | Some (Years ys) \<Rightarrow> None)
      else
        (let d = (case map_of st photo_type of None \<Rightarrow> [] | Some d \<Rightarrow> d) in
         case map_of d file_type of
           None \<Rightarrow>
             Some (AList.update photo_type (AList.update file_type (Years [(yr, 1)]) d) st)
         | Some (Count n) \<Rightarrow> None
         | Some (Years ys) \<Rightarrow>
             Some (AList.update photo_type
                     (AList.update file_type
                        (Years (AList.update yr (case map_of ys yr of None \<Rightarrow> 1 | Some n \<Rightarrow> n + 1) ys)) d)
                     st)))"

text \<open>
  Lines 350-359: the conflict loop and the move of the staged file \<open>t\<close>. The result is
  the final \<^verbatim>\<open>filename\<close>, \<^verbatim>\<open>filepath\<close> and \<^verbatim>\<open>counter\<close>, and the new state unless the move
  raises.
\<close>

definition commit_staged ::
  "string \<Rightarrow> string \<Rightarrow> nat \<Rightarrow> pstate \<Rightarrow> (string \<times> string \<times> nat) \<times> pstate option" where
  "commit_staged photo_dir base_filename t s =
     (let r = resolve_conflict (map fst (files s) @ dirs s) photo_dir base_filename 1
                base_filename (os_path_join photo_dir base_filename)
      in (r, shutil_move t (fst (snd r)) s))"

text \<open>Lines 350-382, after the key has been added.\<close>

definition finish_photo ::
  "lib \<Rightarrow> photo \<Rightarrow> string \<Rightarrow> string option \<Rightarrow> string \<Rightarrow> year_key \<Rightarrow> string \<Rightarrow> string \<Rightarrow> nat
     \<Rightarrow> pstate \<Rightarrow> presult \<times> pstate" where
  "finish_photo L p photo_type album_name file_type yr photo_dir base_filename t s =
     (case commit_staged photo_dir base_filename t s of
        (r, None) \<Rightarrow> (Failed Move_failed, s)
      | ((fname, filepath, counter), Some s1) \<Rightarrow>
          (let s2 = (case created_attr p of
                       Has d \<Rightarrow> preserve_original_timestamps filepath d s1
                     | _ \<Rightarrow> s1);
               s3 = save_metadata L p filepath s2;
               (is_live_photo, s4) = handle_live_photo p filepath fname s3
           in case update_stats photo_type album_name file_type yr (stats s4) of
                None \<Rightarrow> (Failed Stats_failed, s4)
              | Some st \<Rightarrow> (Success is_live_photo filepath, s4\<lparr>stats := st\<rparr>)))"

definition process_photo ::
  "lib \<Rightarrow> photo \<Rightarrow> string \<Rightarrow> string \<Rightarrow> string option \<Rightarrow> bool \<Rightarrow> pstate \<Rightarrow> presult \<times> pstate" where
  "process_photo L p base_dir photo_type album_name use_location_organization s =
     (case filename_attr p of
        None \<Rightarrow> (Escaped, s)
      | Some original_filename \<Rightarrow>
          (case created_parts p of
             None \<Rightarrow> (Failed Bad_created, s)
           | Some (yr, date_str) \<Rightarrow>
               (let file_type = get_file_type_folder original_filename in
                case make_photo_dir p base_dir photo_type album_name use_location_organization
                       file_type yr s of
                  (None, s1) \<Rightarrow> (Failed Mkdir_failed, s1)
                | (Some photo_dir, s1) \<Rightarrow>
                    (let base_filename = date_str @ ''_'' @ original_filename in
                     case stage_original p s1 of
                       (None, s2) \<Rightarrow> (Failed Download_failed, s2)
                     | (Some (t, bs), s2) \<Rightarrow>
                         (let unique_key = (id_attr p, date_str, sha256 L bs, length bs) in
                          if unique_key \<in> unique_photo_keys s2 then (Duplicate, os_remove t s2)
                          else finish_photo L p photo_type album_name file_type yr photo_dir
                                 base_filename t
                                 (s2\<lparr>unique_photo_keys := insert unique_key (unique_photo_keys s2)\<rparr>))))))"

text \<open>
  The key line 345 builds for a photo, when a call gets there: the asset has a file
  name, its \<^verbatim>\<open>created\<close> is not \<^verbatim>\<open>None\<close>, and the download arrives.
\<close>

definition unique_key_of :: "lib \<Rightarrow> photo \<Rightarrow> unique_key option" where
  "unique_key_of L p =
     (case filename_attr p of
        None \<Rightarrow> None
      | Some original_filename \<Rightarrow>
          (case created_parts p of
             None \<Rightarrow> None
           | Some (yr, date_str) \<Rightarrow>
               (case download_original p of
                  Fetched bs \<Rightarrow> Some (id_attr p, date_str, sha256 L bs, length bs)
                | _ \<Rightarrow> None)))"

text \<open>Any number of further calls of \<^verbatim>\<open>process_photo\<close> in the same run, each with its own
  photo, \<^verbatim>\<open>photo_type\<close> and album name.\<close>

fun run_photos :: "lib \<Rightarrow> string \<Rightarrow> bool \<Rightarrow> (photo \<times> string \<times> string option) list \<Rightarrow> pstate \<Rightarrow> pstate" where
  "run_photos L base_dir use_loc [] s = s"
| "run_photos L base_dir use_loc ((p, photo_type, album_name) # rest) s =
     run_photos L base_dir use_loc rest (snd (process_photo L p base_dir photo_type album_name use_loc s))"

section \<open>The per-asset loop of \<^verbatim>\<open>download_all_photos\<close> (lines 387-676)\<close>

datatype asset_section = Personal | Shared_With_Me | Shared_Albums

text \<open>The \<^verbatim>\<open>photo_type\<close> argument each of the three loops passes (lines 465, 522, 586).\<close>

definition photo_type_of :: "asset_section \<Rightarrow> string" where
  "photo_type_of sec =
     (case sec of Personal \<Rightarrow> ''Personal'' | Shared_With_Me \<Rightarrow> ''Shared_With_Me''
      | Shared_Albums \<Rightarrow> ''Shared_Albums'')"

text \<open>Progress is logged every 100, 50 and 25 photos (lines 482, 539, 603).\<close>

definition progress_interval :: "asset_section \<Rightarrow> nat" where
  "progress_interval sec = (case sec of Personal \<Rightarrow> 100 | Shared_With_Me \<Rightarrow> 50 | Shared_Albums \<Rightarrow> 25)"

datatype level = INFO | PROCESS | SUCCESS | ERROR

text \<open>
  The messages of the loop body, by their content; \<open>Line\<close> is any other line, with the
  strings and numbers it shows. The clock reading of an entry is left out.
\<close>

datatype msg =
    Skip_duplicate asset_section string string
  | Processing asset_section nat nat string string
  | Downloaded string string string nat
  | Live_saved
  | Failed_download string
  | Progress asset_section nat nat nat nat
  | Error_downloading asset_section string
  | Line string "string list" "nat list"

text \<open>
  The variables of one run: the state \<^verbatim>\<open>process_photo\<close> works on, \<^verbatim>\<open>processed_ids\<close>, the
  three counters and the log with \<^verbatim>\<open>entry_counter\<close>.
\<close>

record rstate =
  ps :: pstate
  processed_ids :: "string set"
  total_downloaded :: nat
  errors :: nat
  skipped :: nat
  log :: "(nat \<times> level \<times> msg) list"
  entry_counter :: nat

text \<open>\<^verbatim>\<open>log_entry\<close> (lines 417-424).\<close>

definition log_entry :: "msg \<Rightarrow> level \<Rightarrow> rstate \<Rightarrow> rstate" where
  "log_entry message lvl st =
     st\<lparr>log := log st @ [(entry_counter st, lvl, message)], entry_counter := entry_counter st + 1\<rparr>"

text \<open>\<^verbatim>\<open>get_unique_photo_id\<close> (lines 400-408).\<close>

definition filename_or_unknown :: "photo \<Rightarrow> string" where
  "filename_or_unknown p = (case filename_attr p of None \<Rightarrow> ''unknown'' | Some f \<Rightarrow> f)"

definition get_unique_photo_id :: "photo \<Rightarrow> string" where
  "get_unique_photo_id p =
     (let fallback =
            (case created_attr p of Has d \<Rightarrow> strftime_compact d | _ \<Rightarrow> ''unknown_date'')
            @ ''_'' @ filename_or_unknown p
      in case id_attr p of
           None \<Rightarrow> fallback
         | Some pid \<Rightarrow> if pid \<noteq> [] then pid else fallback)"

text \<open>\<^verbatim>\<open>os.path.getsize(filepath) if os.path.exists(filepath) else 0\<close>.\<close>

definition file_size :: "pstate \<Rightarrow> string \<Rightarrow> nat" where
  "file_size s filepath = (case map_of (files s) filepath of None \<Rightarrow> 0 | Some f \<Rightarrow> length (content f))"

text \<open>The progress line at the end of the loop body, when \<^verbatim>\<open>i % interval == 0\<close>.\<close>

definition progress_update :: "asset_section \<Rightarrow> nat \<Rightarrow> nat \<Rightarrow> rstate \<Rightarrow> rstate" where
  "progress_update sec i n_total st =
     (if i mod progress_interval sec = 0
      then log_entry (Progress sec i n_total (total_downloaded st) (errors st)) INFO st
      else st)"

text \<open>
  The body of the three loops (lines 453-487, 510-544, 574-608), which differ in the
  section, the album name and the wording. \<^verbatim>\<open>continue\<close> and the \<^verbatim>\<open>except\<close> branch skip
  the progress line.
\<close>

definition process_one ::
  "lib \<Rightarrow> string \<Rightarrow> bool \<Rightarrow> asset_section \<Rightarrow> string option \<Rightarrow> nat \<Rightarrow> nat \<Rightarrow> photo \<Rightarrow> rstate \<Rightarrow> rstate" where
  "process_one L output_dir use_location_organization sec album_name n_total i p st =
     (let uid = get_unique_photo_id p in
      if uid \<in> processed_ids st then
        log_entry (Skip_duplicate sec uid (filename_or_unknown p)) INFO (st\<lparr>skipped := skipped st + 1\<rparr>)
      else
        (let fname = filename_or_unknown p;
             st1 = log_entry (Processing sec i n_total fname uid) PROCESS st;
             (r, w) = process_photo L p output_dir (photo_type_of sec) album_name
                        use_location_organization (ps st1);
             st2 = st1\<lparr>ps := w\<rparr>
         in case r of
              Success is_live filepath \<Rightarrow>
                (let st3 = st2\<lparr>processed_ids := insert uid (processed_ids st2),
                               total_downloaded := total_downloaded st2 + 1\<rparr>;
                     st4 = log_entry (Downloaded fname uid filepath (file_size w filepath)) SUCCESS st3;
                     st5 = (if is_live then log_entry Live_saved INFO st4 else st4)
                 in progress_update sec i n_total st5)
            | Escaped \<Rightarrow>
                log_entry (Error_downloading sec fname) ERROR (st2\<lparr>errors := errors st2 + 1\<rparr>)
            | _ \<Rightarrow>
                progress_update sec i n_total
                  (log_entry (Failed_download fname) ERROR (st2\<lparr>errors := errors st2 + 1\<rparr>))))"

text \<open>\<^verbatim>\<open>for i, photo in enumerate(photos, 1)\<close>.\<close>

fun photos_loop ::
  "lib \<Rightarrow> string \<Rightarrow> bool \<Rightarrow> asset_section \<Rightarrow> string option \<Rightarrow> nat \<Rightarrow> nat \<Rightarrow> photo list \<Rightarrow> rstate \<Rightarrow> rstate" where
  "photos_loop L output_dir use_loc sec album_name n_total i [] st = st"
| "photos_loop L output_dir use_loc sec album_name n_total i (p # rest) st =
     photos_loop L output_dir use_loc sec album_name n_total (i + 1) rest
       (process_one L output_dir use_loc sec album_name n_total i p st)"

section \<open>\<^verbatim>\<open>download_all_photos\<close>: sections and summary\<close>

text \<open>
  The remote library: each enumeration is a list, or \<open>None\<close> when reading it raises.
\<close>

record album =
  album_name_attr :: "string option"
  album_photos :: "photo list option"

record api =
  photos_all :: "photo list option"
  shared_all :: "photo list option"
  shared_albums :: "album list option"

record download_options =
  opt_personal :: bool
  opt_shared :: bool
  opt_albums :: bool

definition info :: "string \<Rightarrow> rstate \<Rightarrow> rstate" where
  "info text st = log_entry (Line text [] []) INFO st"

definition rule_line :: "rstate \<Rightarrow> rstate" where
  "rule_line st = info ''='' st"

text \<open>Lines 440-495.\<close>

definition personal_section :: "lib \<Rightarrow> api \<Rightarrow> string \<Rightarrow> bool \<Rightarrow> rstate \<Rightarrow> rstate" where
  "personal_section L a output_dir use_loc st =
     (let st1 = rule_line (info ''Starting Personal Library Download'' (rule_line st));
          st2 = (case photos_all a of
                   None \<Rightarrow> log_entry (Line ''Error accessing personal library'' [] []) ERROR st1
                 | Some photos \<Rightarrow>
                     photos_loop L output_dir use_loc Personal None (length photos) 1 photos
                       (info ''Directory layout: Personal/<TYPE>/<YEAR>/filename''
                         (info ''Progress format: [Current/Total] [Status] [Filename] -> [Filepath]''
                           (log_entry (Line ''Found photos in personal library'' [] [length photos])
                              INFO st1))))
      in rule_line
           (log_entry (Line ''Personal Library Complete'' [] [total_downloaded st2, errors st2]) INFO st2))"

text \<open>Lines 498-553.\<close>

definition shared_section :: "lib \<Rightarrow> api \<Rightarrow> string \<Rightarrow> bool \<Rightarrow> rstate \<Rightarrow> rstate" where
  "shared_section L a output_dir use_loc st =
     (let st1 = rule_line (info ''Starting Photos Shared With You Download'' (rule_line st));
          st2 = (case shared_all a of
                   None \<Rightarrow> log_entry (Line ''Error accessing shared photos'' [] []) ERROR st1
                 | Some shared_photos \<Rightarrow>
                     if shared_photos \<noteq> [] then
                       photos_loop L output_dir use_loc Shared_With_Me None (length shared_photos) 1
                         shared_photos
                         (info ''Directory layout: Shared_With_Me/<TYPE>/<YEAR>/filename''
                           (log_entry (Line ''Found shared photos'' [] [length shared_photos]) INFO st1))
                     else info ''No shared photos found'' st1)
      in rule_line
           (log_entry (Line ''Shared Photos Complete'' [] [total_downloaded st2, errors st2]) INFO st2))"

text \<open>Lines 566-613: one album after the other; reading \<^verbatim>\<open>album.photos\<close> may raise.\<close>

fun albums_loop :: "lib \<Rightarrow> string \<Rightarrow> bool \<Rightarrow> nat \<Rightarrow> nat \<Rightarrow> album list \<Rightarrow> rstate \<Rightarrow> rstate" where
  "albums_loop L output_dir use_loc n_albums album_idx [] st = st"
| "albums_loop L output_dir use_loc n_albums album_idx (al # rest) st =
     albums_loop L output_dir use_loc n_albums (album_idx + 1) rest
       (case album_photos al of
          None \<Rightarrow> log_entry (Line ''Error processing album'' [] []) ERROR st
        | Some photos \<Rightarrow>
            log_entry (Line ''Album complete'' [album_str (album_name_attr al)] [length photos]) INFO
              (photos_loop L output_dir use_loc Shared_Albums (album_name_attr al) (length photos) 1
                 photos
                 (log_entry (Line ''Processing album'' [album_str (album_name_attr al)]
                               [album_idx, n_albums, length photos]) INFO st)))"

text \<open>Lines 556-622.\<close>

definition albums_section :: "lib \<Rightarrow> api \<Rightarrow> string \<Rightarrow> bool \<Rightarrow> rstate \<Rightarrow> rstate" where
  "albums_section L a output_dir use_loc st =
     (let st1 = rule_line (info ''Starting Shared Albums Download'' (rule_line st));
          st2 = (case shared_albums a of
                   None \<Rightarrow> log_entry (Line ''Error accessing shared albums'' [] []) ERROR st1
                 | Some albums \<Rightarrow>
                     if albums \<noteq> [] then
                       albums_loop L output_dir use_loc (length albums) 1 albums
                         (info ''Directory layout: Shared_Albums/<ALBUM>/<TYPE>/<YEAR>/filename''
                           (log_entry (Line ''Found shared albums'' [] [length albums]) INFO st1))
                     else info ''No shared albums found'' st1)
      in rule_line
           (log_entry (Line ''Shared Albums Complete'' [] [total_downloaded st2, errors st2]) INFO st2))"

text \<open>
  \<^verbatim>\<open>sorted(years.keys())\<close> (lines 645, 655): with two keys or more, an \<^verbatim>\<open>int\<close> is compared
  with the string \<^verbatim>\<open>"unknown_year"\<close> as soon as that key is among them, which raises.
\<close>

definition sorted_years :: "(year_key \<times> nat) list \<Rightarrow> (year_key \<times> nat) list option" where
  "sorted_years ys =
     (if length ys \<le> 1 then Some ys
      else if list_all (\<lambda>e. fst e \<noteq> Unknown_year) ys
      then Some (sort_key (\<lambda>e. case fst e of Year k \<Rightarrow> k | Unknown_year \<Rightarrow> 0) ys)
      else None)"

text \<open>
  Lines 642-647 and 652-657: the lines for one section of type \<open>\<rightarrow>\<close> year \<open>\<rightarrow>\<close> count, up
  to the first entry that raises; the flag tells whether the loop came to its end.
\<close>

fun type_stats_lines :: "(string \<times> stat_entry) list \<Rightarrow> msg list \<times> bool" where
  "type_stats_lines [] = ([], True)"
| "type_stats_lines ((file_type, e) # rest) =
     (case e of
        Count n \<Rightarrow> ([], False)
      | Years ys \<Rightarrow>
          (let l = Line ''type total'' [file_type] [sum_list (map snd ys)] in
           case sorted_years ys of
             None \<Rightarrow> ([l], False)
           | Some sy \<Rightarrow>
               (let rest_lines = type_stats_lines rest in
                (l # map (\<lambda>e. Line ''year total'' [str_year (fst e)] [snd e]) sy @ fst rest_lines,
                 snd rest_lines))))"

text \<open>Lines 662-663: formatting a dictionary with \<^verbatim>\<open>{count:,}\<close> raises.\<close>

fun album_stats_lines :: "(string \<times> stat_entry) list \<Rightarrow> msg list \<times> bool" where
  "album_stats_lines [] = ([], True)"
| "album_stats_lines ((name, e) # rest) =
     (case e of
        Years ys \<Rightarrow> ([], False)
      | Count n \<Rightarrow>
          (let rest_lines = album_stats_lines rest in
           (Line ''album total'' [name] [n] # fst rest_lines, snd rest_lines)))"

definition log_lines :: "msg list \<Rightarrow> rstate \<Rightarrow> rstate" where
  "log_lines ms st = fold (\<lambda>m. log_entry m INFO) ms st"

text \<open>
  One block of the detailed statistics: nothing when the section is not in \<^verbatim>\<open>stats\<close>,
  else a heading and the lines; \<open>False\<close> when an exception ends the run there.
\<close>

definition stats_block ::
  "string \<Rightarrow> string \<Rightarrow> ((string \<times> stat_entry) list \<Rightarrow> msg list \<times> bool) \<Rightarrow> rstate \<Rightarrow> bool \<times> rstate" where
  "stats_block key heading lines st =
     (case map_of (stats (ps st)) key of
        None \<Rightarrow> (True, st)
      | Some d \<Rightarrow> (snd (lines d), log_lines (fst (lines d)) (info heading st)))"

text \<open>Lines 625-668; the lines printed to the console only (671-676) are left out.\<close>

definition final_summary :: "rstate \<Rightarrow> bool \<times> rstate" where
  "final_summary st =
     (let st1 = rule_line (info ''DOWNLOAD SESSION COMPLETE'' (rule_line st));
          st2 = log_entry (Line ''Total files downloaded'' [] [total_downloaded st1]) INFO st1;
          st3 = log_entry (Line ''Errors encountered'' [] [errors st2]) INFO st2;
          st4 = log_entry (Line ''Total unique assets processed'' [] [card (processed_ids st3)]) INFO st3;
          st5 = log_entry (Line ''Skipped duplicates across sections'' [] [skipped st4]) INFO st4;
          st6 = log_entry (Line ''Success rate'' [] [total_downloaded st5, errors st5]) INFO st5;
          st7 = rule_line (info ''DETAILED STATISTICS'' (rule_line st6))
      in case stats_block ''Personal'' ''Personal Library Statistics:'' type_stats_lines st7 of
           (False, st8) \<Rightarrow> (False, st8)
         | (True, st8) \<Rightarrow>
             (case stats_block ''Shared_With_Me'' ''Shared With Me Statistics:'' type_stats_lines st8 of
                (False, st9) \<Rightarrow> (False, st9)
              | (True, st9) \<Rightarrow>
                  (case stats_block ''Shared_Albums'' ''Shared Albums Statistics:'' album_stats_lines st9 of
                     (False, st10) \<Rightarrow> (False, st10)
                   | (True, st10) \<Rightarrow>
                       (True, rule_line (info ''Download session ended'' (rule_line st10))))))"

text \<open>
  The state at line 398, for a file system \<open>w\<close>: empty \<^verbatim>\<open>stats\<close>, zero counters, empty
  sets, an empty log.
\<close>

definition initial_state :: "pstate \<Rightarrow> rstate" where
  "initial_state w =
     \<lparr>ps = w\<lparr>unique_photo_keys := {}, stats := []\<rparr>, processed_ids = {}, total_downloaded = 0,
      errors = 0, skipped = 0, log = [], entry_counter = 1\<rparr>"

text \<open>
  \<^verbatim>\<open>download_all_photos\<close>; the flag is \<open>False\<close> when an exception leaves the function
  (creating the output directory, or formatting the statistics). The log file itself
  is not a file of the model.
\<close>

definition download_all_photos ::
  "lib \<Rightarrow> api \<Rightarrow> string \<Rightarrow> download_options \<Rightarrow> bool \<Rightarrow> pstate \<Rightarrow> bool \<times> rstate" where
  "download_all_photos L a output_dir opts use_location_organization w =
     (let st0 = initial_state w in
      case os_makedirs output_dir (ps st0) of
        None \<Rightarrow> (False, st0)
      | Some w1 \<Rightarrow>
          (let st1 = info ''Download options''
                       (info ''Location organization''
                         (info ''Output directory''
                           (info ''All photos will be downloaded regardless of filename similarities''
                             (info ''Starting download session - downloading all photos without duplicate checking''
                                (st0\<lparr>ps := w1\<rparr>)))));
               st2 = (if opt_personal opts
                      then personal_section L a output_dir use_location_organization st1
                      else info ''Skipping Personal Library (not selected)'' st1);
               st3 = (if opt_shared opts
                      then shared_section L a output_dir use_location_organization st2
                      else info ''Skipping Photos Shared With You (not selected)'' st2);
               st4 = (if opt_albums opts
                      then albums_section L a output_dir use_location_organization st3
                      else info ''Skipping Shared Albums (not selected)'' st3)
           in final_summary st4))"

section \<open>The conflict loop never returns a path that exists\<close>

text \<open>A path is its head followed by its last component, and \<^verbatim>\<open>splitext\<close> only cuts it in two.\<close>

lemma path_head_basename: "path_head p @ os_path_basename p = p"
proof -
  have "rev (takeWhile (\<lambda>c. c \<noteq> CHR ''/'') (rev p) @ dropWhile (\<lambda>c. c \<noteq> CHR ''/'') (rev p)) = p"
    by (simp only: takeWhile_dropWhile_id rev_rev_ident)
  then show ?thesis
    by (simp only: path_head_def os_path_basename_def rev_append)
qed

lemma last_dot_split:
  assumes "CHR ''.'' \<in> set b"
  shows "rev (tl (dropWhile (\<lambda>c. c \<noteq> CHR ''.'') (rev b))) @ CHR ''.'' # rev (takeWhile (\<lambda>c. c \<noteq> CHR ''.'') (rev b)) = b"
proof -
  let ?P = "\<lambda>c. c \<noteq> CHR ''.''"
  from assms have "dropWhile ?P (rev b) \<noteq> []" by (simp add: dropWhile_eq_Nil_conv) 
  then obtain x xs where dw: "dropWhile ?P (rev b) = x # xs" by (cases "dropWhile ?P (rev b)") auto
  then have "\<not> ?P x" using hd_dropWhile [of ?P "rev b"] by fastforce
  then have x: "x = CHR ''.''" by simp
  have "rev b = takeWhile ?P (rev b) @ dropWhile ?P (rev b)" by simp
  then have "b = rev (takeWhile ?P (rev b) @ x # xs)" using dw by (metis rev_rev_ident)
  then show ?thesis using dw x by simp
qed

lemma os_path_splitext_append: "fst (os_path_splitext p) @ snd (os_path_splitext p) = p"
proof (cases "CHR ''.'' \<in> set (os_path_basename p)")
  case False
  then show ?thesis by (simp add: os_path_splitext_def Let_def)
next
  case True
  from last_dot_split [OF True] path_head_basename [of p]
  show ?thesis
    by (auto simp: os_path_splitext_def Let_def)
qed

lemma resolve_conflict_result:
  "resolve_conflict ex d b c fn fp = (fn', fp', c') \<Longrightarrow>
     fp' \<notin> set ex \<and> c \<le> c' \<and>
     (c' = c \<longrightarrow> fn' = fn \<and> fp' = fp) \<and>
     (c < c' \<longrightarrow> fp \<in> set ex \<and> fn' = suffixed b (c' - 1) \<and> fp' = os_path_join d fn' \<and>
        (\<forall>k. c \<le> k \<and> k < c' - 1 \<longrightarrow> os_path_join d (suffixed b k) \<in> set ex))"
proof (induction ex d b c fn fp rule: resolve_conflict.induct)
  case (1 ex d b c fn fp)
  show ?case
  proof (cases "fp \<in> set ex")
    case False
    with "1.prems" show ?thesis by (simp add: resolve_conflict.simps)
  next
    case True
    with "1.prems" have rec: "resolve_conflict ex d b (c + 1) (suffixed b c) (os_path_join d (suffixed b c)) = (fn', fp', c')"
      by (simp add: resolve_conflict.simps)
    note ih = "1.IH" [OF True rec]
    from ih have le: "c + 1 \<le> c'" by simp
    have "fn' = suffixed b (c' - 1) \<and> fp' = os_path_join d fn'"
    proof (cases "c' = c + 1")
      case True then show ?thesis using ih by simp
    next
      case False then show ?thesis using ih le by simp
    qed
    moreover have "\<forall>k. c \<le> k \<and> k < c' - 1 \<longrightarrow> os_path_join d (suffixed b k) \<in> set ex"
    proof (intro allI impI)
      fix k assume k: "c \<le> k \<and> k < c' - 1"
      then have lt: "c + 1 < c'" by linarith
      show "os_path_join d (suffixed b k) \<in> set ex"
      proof (cases "k = c")
        case True then show ?thesis using ih lt by simp
      next
        case False then show ?thesis using ih lt k by simp
      qed
    qed
    ultimately show ?thesis using ih True le by simp
  qed
qed

lemma base_not_suffixed: "os_path_join d b \<noteq> os_path_join d (suffixed b k)"
proof
  assume eq: "os_path_join d b = os_path_join d (suffixed b k)"
  obtain name ext where ne: "os_path_splitext b = (name, ext)" by (cases "os_path_splitext b")
  then have b: "b = name @ ext" using os_path_splitext_append [of b] by simp
  have sfx: "suffixed b k = name @ ''_'' @ zero_pad 3 k @ ext" using ne by (simp add: suffixed_def)
  have "name = [] \<Longrightarrow> ext = []"
    using ne by (auto simp: os_path_splitext_def Let_def split: if_splits)
  then have "startswith (name @ ext) ''/'' = startswith (name @ ''_'' @ zero_pad 3 k @ ext) ''/''"
    by (cases name) (auto simp: startswith_def)
  then have "startswith b ''/'' = startswith (suffixed b k) ''/''"
    by (simp only: sfx flip: b)
  from os_path_join_inj [OF this eq] have "b = suffixed b k" .
  then have "length b = length (suffixed b k)" by simp
  then have "length (name @ ext) = length (name @ ''_'' @ zero_pad 3 k @ ext)"
    using b sfx by simp
  then show False by simp
qed

lemma probed_bound:
  assumes "os_path_join d b \<in> set ex"
      and "\<forall>k. 1 \<le> k \<and> k < n \<longrightarrow> os_path_join d (suffixed b k) \<in> set ex"
  shows "n \<le> length ex"
proof -
  let ?f = "\<lambda>k. if k = 0 then os_path_join d b else os_path_join d (suffixed b k)"
  have inj: "inj_on ?f {..<n}"
    by (auto simp: inj_on_def base_not_suffixed dest: candidate_inj base_not_suffixed [symmetric, THEN notE])
  have "?f ` {..<n} \<subseteq> set ex" using assms by (auto simp: Suc_le_eq)
  then have "card (?f ` {..<n}) \<le> card (set ex)" by (intro card_mono) simp_all
  moreover have "card (?f ` {..<n}) = n" using card_image [OF inj] by simp
  ultimately have "n \<le> card (set ex)" by simp
  then show ?thesis using card_length [of ex] by linarith
qed

lemma exists_iff: "os_path_exists s p \<longleftrightarrow> p \<in> set (map fst (files s) @ dirs s)"
  by (auto simp: os_path_exists_def)

text \<open>
  Claim C4. When the computed destination \<^verbatim>\<open>photo_dir/base_filename\<close> already exists,
  the loop and the move of lines 350-359 (total by the termination proof of
  \<open>resolve_conflict\<close>) end on a path that did not exist; the final name is the base name
  with \<^verbatim>\<open>_NNN\<close> (zero-padded to three digits) inserted between its root and its
  extension; every path tried before it existed, so the number of rounds
  \<open>counter - 1\<close> is the number of collisions met and is at most the number of existing
  paths; after the move the chosen path holds the staged bytes, and every path that
  existed before still maps to the file it had.
\<close>

theorem commit_staged_no_clobber:
  assumes run: "commit_staged photo_dir base_filename t s = ((fname, filepath, counter), Some s')"
      and staged: "map_of (tmp s) t = Some staged"
      and taken: "os_path_exists s (os_path_join photo_dir base_filename)"
  shows "\<not> os_path_exists s filepath
       \<and> 1 < counter
       \<and> fst (os_path_splitext base_filename) @ snd (os_path_splitext base_filename) = base_filename
       \<and> fname = fst (os_path_splitext base_filename) @ ''_'' @ zero_pad 3 (counter - 1)
                   @ snd (os_path_splitext base_filename)
       \<and> filepath = os_path_join photo_dir fname
       \<and> (\<forall>k. 1 \<le> k \<and> k < counter - 1 \<longrightarrow>
             os_path_exists s (os_path_join photo_dir (suffixed base_filename k)))
       \<and> counter - 1 \<le> length (files s) + length (dirs s)
       \<and> map_of (files s') filepath = Some \<lparr>content = staged, mtime = None\<rparr>
       \<and> (\<forall>p. os_path_exists s p \<longrightarrow> map_of (files s') p = map_of (files s) p)
       \<and> dirs s' = dirs s"
proof -
  let ?ex = "map fst (files s) @ dirs s"
  from run have res: "resolve_conflict ?ex photo_dir base_filename 1 base_filename
                        (os_path_join photo_dir base_filename) = (fname, filepath, counter)"
    by (simp add: commit_staged_def Let_def)
  from run have mv: "shutil_move t filepath s = Some s'"
    by (simp add: commit_staged_def Let_def res [simplified])
  note r = resolve_conflict_result [OF res]
  from taken have in_ex: "os_path_join photo_dir base_filename \<in> set ?ex"
    by (simp only: exists_iff)
  from r have free: "filepath \<notin> set ?ex" by simp
  have gt: "1 < counter"
  proof (rule ccontr)
    assume "\<not> 1 < counter"
    with r have "counter = 1" by simp
    with r have "filepath = os_path_join photo_dir base_filename" by simp
    with free in_ex show False by simp
  qed
  with r have fn: "fname = suffixed base_filename (counter - 1)"
    and fp: "filepath = os_path_join photo_dir fname"
    and probes: "\<forall>k. 1 \<le> k \<and> k < counter - 1 \<longrightarrow> os_path_join photo_dir (suffixed base_filename k) \<in> set ?ex"
    by simp_all
  have bound: "counter - 1 \<le> length ?ex"
    by (rule probed_bound [OF in_ex probes])
  from mv staged have s': "s' = s\<lparr>files := AList.update filepath \<lparr>content = staged, mtime = None\<rparr> (files s),
                                  tmp := AList.delete t (tmp s)\<rparr>"
    by (simp add: shutil_move_def split: if_splits)
  have keep: "\<forall>p. os_path_exists s p \<longrightarrow> map_of (files s') p = map_of (files s) p"
  proof (intro allI impI)
    fix p assume "os_path_exists s p"
    then have "p \<in> set ?ex" by (simp only: exists_iff)
    with free have "p \<noteq> filepath" by auto
    then show "map_of (files s') p = map_of (files s) p"
      by (simp add: s' update_conv')
  qed
  have "map_of (files s') filepath = Some \<lparr>content = staged, mtime = None\<rparr>"
    by (simp add: s' update_conv')
  moreover have "fname = fst (os_path_splitext base_filename) @ ''_'' @ zero_pad 3 (counter - 1)
                   @ snd (os_path_splitext base_filename)"
    using fn by (simp add: suffixed_def split: prod.splits)
  moreover have "\<not> os_path_exists s filepath" using free by (simp add: exists_iff)
  moreover have "\<forall>k. 1 \<le> k \<and> k < counter - 1 \<longrightarrow>
             os_path_exists s (os_path_join photo_dir (suffixed base_filename k))"
    using probes by (simp only: exists_iff)
  moreover have "dirs s' = dirs s" by (simp add: s')
  ultimately show ?thesis
    using gt fp bound keep os_path_splitext_append [of base_filename] by simp
qed

text \<open>A directory in which the name and its first suffix are taken.\<close>

definition taken_world :: pstate where
  "taken_world =
     \<lparr>files = [(''d/a.jpg'', \<lparr>content = ''old'', mtime = None\<rparr>),
               (''d/a_001.jpg'', \<lparr>content = ''older'', mtime = None\<rparr>)],
      dirs = [''d''], denied = [], tmp = [(0, ''new'')], tmp_next = 1,
      unique_photo_keys = {}, stats = []\<rparr>"

lemma taken_world_commit:
  "commit_staged ''d'' ''a.jpg'' 0 taken_world =
     ((''a_002.jpg'', ''d/a_002.jpg'', 3),
      Some (taken_world\<lparr>files := AList.update ''d/a_002.jpg'' \<lparr>content = ''new'', mtime = None\<rparr> (files taken_world),
                        tmp := []\<rparr>))"
  by code_simp

theorem commit_staged_no_clobber_witness:
  "commit_staged ''d'' ''a.jpg'' 0 taken_world =
     ((''a_002.jpg'', ''d/a_002.jpg'', 3),
      Some (taken_world\<lparr>files := AList.update ''d/a_002.jpg'' \<lparr>content = ''new'', mtime = None\<rparr> (files taken_world),
                        tmp := []\<rparr>))
   \<and> map_of (tmp taken_world) 0 = Some ''new''
   \<and> os_path_exists taken_world (os_path_join ''d'' ''a.jpg'')
   \<and> \<not> os_path_exists taken_world ''d/a_002.jpg''
   \<and> map_of (files (taken_world\<lparr>files := AList.update ''d/a_002.jpg'' \<lparr>content = ''new'', mtime = None\<rparr> (files taken_world),
                        tmp := []\<rparr>)) ''d/a_002.jpg'' = Some \<lparr>content = ''new'', mtime = None\<rparr>"
proof -
  have h2: "map_of (tmp taken_world) 0 = Some ''new''" by (simp add: taken_world_def)
  have h3: "os_path_exists taken_world (os_path_join ''d'' ''a.jpg'')"
    by (simp add: taken_world_def os_path_exists_def os_path_join_def startswith_def endswith_def)
  note t = commit_staged_no_clobber [OF taken_world_commit h2 h3]
  have c1: "\<not> os_path_exists taken_world ''d/a_002.jpg''"
    using t by (rule conjunct1)
  have c2: "map_of (files (taken_world\<lparr>files := AList.update ''d/a_002.jpg'' \<lparr>content = ''new'', mtime = None\<rparr> (files taken_world),
                        tmp := []\<rparr>)) ''d/a_002.jpg'' = Some \<lparr>content = ''new'', mtime = None\<rparr>"
    using t by blast
  show ?thesis
    by (intro conjI) (rule taken_world_commit h2 h3 c1 c2)+
qed

section \<open>Totals of the statistics\<close>

definition entry_total :: "stat_entry \<Rightarrow> nat" where
  "entry_total e = (case e of Count n \<Rightarrow> n | Years ys \<Rightarrow> sum_list (map snd ys))"

definition dict_total :: "(string \<times> stat_entry) list \<Rightarrow> nat" where
  "dict_total d = sum_list (map (\<lambda>kv. entry_total (snd kv)) d)"

text \<open>The sum over all leaves of \<^verbatim>\<open>stats\<close>.\<close>

definition stats_total :: "stats \<Rightarrow> nat" where
  "stats_total st = sum_list (map (\<lambda>kv. dict_total (snd kv)) st)"

lemma sum_update_plus_one:
  "f v = (case map_of al k of None \<Rightarrow> 0 | Some old \<Rightarrow> f old) + 1 \<Longrightarrow>
   sum_list (map (\<lambda>kv. f (snd kv)) (AList.update k v al)) = sum_list (map (\<lambda>kv. f (snd kv)) al) + (1::nat)"
  by (induction al) (auto split: if_splits)

lemma years_update_None:
  "map_of ys yr = None \<Longrightarrow>
   sum_list (map snd (AList.update yr (Suc 0) ys)) = Suc (sum_list (map snd ys))"
  using sum_update_plus_one [of "\<lambda>n. n" "Suc 0" ys yr] by simp

lemma years_update_Some:
  "map_of ys yr = Some n \<Longrightarrow>
   sum_list (map snd (AList.update yr (Suc n) ys)) = Suc (sum_list (map snd ys))"
  using sum_update_plus_one [of "\<lambda>n. n" "Suc n" ys yr] by simp

lemma dict_total_update:
  "entry_total e' = (case map_of d k of None \<Rightarrow> 0 | Some e \<Rightarrow> entry_total e) + 1 \<Longrightarrow>
   dict_total (AList.update k e' d) = dict_total d + 1"
  unfolding dict_total_def by (rule sum_update_plus_one)

lemma stats_total_update:
  "dict_total d' = (case map_of st k of None \<Rightarrow> 0 | Some d \<Rightarrow> dict_total d) + 1 \<Longrightarrow>
   stats_total (AList.update k d' st) = stats_total st + 1"
  unfolding stats_total_def by (rule sum_update_plus_one)

lemma update_stats_total:
  assumes "update_stats photo_type album_name file_type yr st = Some st'"
  shows "stats_total st' = stats_total st + 1"
proof (cases "album_given album_name")
  case True
  let ?d = "case map_of st ''Shared_Albums'' of None \<Rightarrow> [] | Some d \<Rightarrow> d"
  have d: "(case map_of st ''Shared_Albums'' of None \<Rightarrow> 0 | Some d \<Rightarrow> dict_total d) = dict_total ?d"
    by (simp add: dict_total_def split: option.splits)
  from assms True obtain e where st': "st' = AList.update ''Shared_Albums'' (AList.update (album_str album_name) e ?d) st"
    and e: "entry_total e = (case map_of ?d (album_str album_name) of None \<Rightarrow> 0 | Some e0 \<Rightarrow> entry_total e0) + 1"
    by (auto simp: update_stats_def Let_def entry_total_def split: option.splits stat_entry.splits)
  show ?thesis
    unfolding st' by (rule stats_total_update) (simp add: d dict_total_update [OF e])
next
  case False
  let ?d = "case map_of st photo_type of None \<Rightarrow> [] | Some d \<Rightarrow> d"
  have d: "(case map_of st photo_type of None \<Rightarrow> 0 | Some d \<Rightarrow> dict_total d) = dict_total ?d"
    by (simp add: dict_total_def split: option.splits)
  from assms False obtain e where st': "st' = AList.update photo_type (AList.update file_type e ?d) st"
    and e: "entry_total e = (case map_of ?d file_type of None \<Rightarrow> 0 | Some e0 \<Rightarrow> entry_total e0) + 1"
    by (auto simp: update_stats_def Let_def entry_total_def years_update_None years_update_Some
             split: option.splits stat_entry.splits)
  show ?thesis
    unfolding st' by (rule stats_total_update) (simp add: d dict_total_update [OF e])
qed

section \<open>What each step of \<^verbatim>\<open>process_photo\<close> leaves alone\<close>

text \<open>Creating directories changes nothing but the list of directories, which grows.\<close>

definition dirs_grow :: "pstate \<Rightarrow> pstate \<Rightarrow> bool" where
  "dirs_grow s s' =
     (files s' = files s \<and> denied s' = denied s \<and> tmp s' = tmp s \<and> tmp_next s' = tmp_next s \<and>
      unique_photo_keys s' = unique_photo_keys s \<and> stats s' = stats s \<and>
      set (dirs s) \<subseteq> set (dirs s'))"

lemma dirs_grow_refl: "dirs_grow s s"
  by (simp add: dirs_grow_def)

lemma dirs_grow_trans: "dirs_grow s s1 \<Longrightarrow> dirs_grow s1 s2 \<Longrightarrow> dirs_grow s s2"
  by (auto simp: dirs_grow_def)

lemma os_makedirs_grow: "os_makedirs p s = Some s' \<Longrightarrow> dirs_grow s s'"
  by (auto simp: os_makedirs_def dirs_grow_def split: if_splits)

lemma create_type_year_directory_grow:
  "create_type_year_directory b ft yr s = (r, s') \<Longrightarrow> dirs_grow s s'"
  by (auto simp: create_type_year_directory_def Let_def split: option.splits
           intro: dirs_grow_refl os_makedirs_grow dirs_grow_trans)

lemma create_location_year_directory_grow:
  "create_location_year_directory b lname yr s = (r, s') \<Longrightarrow> dirs_grow s s'"
  by (auto simp: create_location_year_directory_def Let_def split: option.splits
           intro: dirs_grow_refl os_makedirs_grow dirs_grow_trans)

lemma make_photo_dir_grow:
  "make_photo_dir p b pt alb loc ft yr s = (r, s') \<Longrightarrow> dirs_grow s s'"
  by (auto simp: make_photo_dir_def Let_def split: option.splits if_splits
           intro: dirs_grow_refl os_makedirs_grow create_type_year_directory_grow
                  create_location_year_directory_grow)

text \<open>Staging touches the temporary files only.\<close>

lemma stage_original_frame:
  "stage_original p s = (r, s') \<Longrightarrow>
     files s' = files s \<and> dirs s' = dirs s \<and> denied s' = denied s \<and>
     unique_photo_keys s' = unique_photo_keys s \<and> stats s' = stats s \<and>
     tmp_next s' = tmp_next s + 1"
  by (auto simp: stage_original_def Let_def split: fetch.splits)

lemma stage_original_Some:
  "stage_original p s = (Some (t, bs), s') \<Longrightarrow>
     t = tmp_next s \<and> download_original p = Fetched bs \<and>
     map_of (tmp s') (tmp_next s) = Some bs \<and>
     AList.delete (tmp_next s) (tmp s') = AList.delete (tmp_next s) (tmp s)"
  by (auto simp: stage_original_def Let_def update_conv' delete_update_same split: fetch.splits)

lemma stage_original_None:
  "stage_original p s = (None, s') \<Longrightarrow> download_original p \<noteq> Fetched bs"
  by (auto simp: stage_original_def Let_def split: fetch.splits)

text \<open>The steps after the move leave the key set and the statistics alone.\<close>

lemma preserve_original_timestamps_frame:
  "unique_photo_keys (preserve_original_timestamps fp d s) = unique_photo_keys s \<and>
   stats (preserve_original_timestamps fp d s) = stats s \<and>
   tmp (preserve_original_timestamps fp d s) = tmp s \<and>
   dirs (preserve_original_timestamps fp d s) = dirs s \<and>
   denied (preserve_original_timestamps fp d s) = denied s"
  by (simp add: preserve_original_timestamps_def split: option.splits)

lemma save_metadata_frame:
  "unique_photo_keys (save_metadata L p fp s) = unique_photo_keys s \<and>
   stats (save_metadata L p fp s) = stats s \<and>
   tmp (save_metadata L p fp s) = tmp s \<and>
   dirs (save_metadata L p fp s) = dirs s \<and>
   denied (save_metadata L p fp s) = denied s"
  by (simp add: save_metadata_def split: option.splits)

lemma handle_live_photo_frame:
  "handle_live_photo p fp fn s = (b, s') \<Longrightarrow>
     unique_photo_keys s' = unique_photo_keys s \<and> stats s' = stats s \<and> tmp s' = tmp s \<and>
     denied s' = denied s"
  by (auto simp: handle_live_photo_def Let_def open_wb_def os_makedirs_def
                 preserve_original_timestamps_frame
           split: option.splits fetch.splits if_splits attr.splits)

lemma shutil_move_frame:
  "shutil_move t dst s = Some s' \<Longrightarrow>
     unique_photo_keys s' = unique_photo_keys s \<and> stats s' = stats s \<and> dirs s' = dirs s \<and>
     denied s' = denied s \<and> tmp s' = AList.delete t (tmp s)"
  by (auto simp: shutil_move_def split: option.splits if_splits)

lemma finish_photo_keys:
  "finish_photo L p pt alb ft yr pd bf t s = (r, s') \<Longrightarrow>
     unique_photo_keys s' = unique_photo_keys s"
  by (auto simp: finish_photo_def commit_staged_def Let_def preserve_original_timestamps_frame
                 save_metadata_frame
           split: option.splits prod.splits attr.splits
           dest!: shutil_move_frame handle_live_photo_frame)

lemma finish_photo_stats:
  "finish_photo L p pt alb ft yr pd bf t s = (r, s') \<Longrightarrow>
     (case r of Success il fp \<Rightarrow> stats_total (stats s') = stats_total (stats s) + 1
      | _ \<Rightarrow> stats s' = stats s)"
  by (auto simp: finish_photo_def commit_staged_def Let_def preserve_original_timestamps_frame
                 save_metadata_frame update_stats_total
           split: option.splits prod.splits attr.splits
           dest!: shutil_move_frame handle_live_photo_frame)

lemma finish_photo_results:
  "finish_photo L p pt alb ft yr pd bf t s = (r, s') \<Longrightarrow>
     r \<noteq> Duplicate \<and> r \<noteq> Escaped \<and> r \<noteq> Failed Bad_created \<and> r \<noteq> Failed Download_failed \<and>
     r \<noteq> Failed Mkdir_failed"
  by (auto simp: finish_photo_def Let_def split: option.splits prod.splits)

section \<open>The uniqueness check\<close>

text \<open>The ways through \<^verbatim>\<open>process_photo\<close>, one case for each way out.\<close>

lemma process_photo_phases [consumes 1, case_names escaped bad_created mkdir download duplicate finish]:
  assumes "process_photo L p b pt alb loc s = (r, s')"
  obtains
    "filename_attr p = None" "r = Escaped" "s' = s"
  | fn where "filename_attr p = Some fn" "created_parts p = None" "r = Failed Bad_created" "s' = s"
  | fn yr ds where "filename_attr p = Some fn" "created_parts p = Some (yr, ds)"
      "make_photo_dir p b pt alb loc (get_file_type_folder fn) yr s = (None, s')"
      "r = Failed Mkdir_failed"
  | fn yr ds pd s1 where "filename_attr p = Some fn" "created_parts p = Some (yr, ds)"
      "make_photo_dir p b pt alb loc (get_file_type_folder fn) yr s = (Some pd, s1)"
      "stage_original p s1 = (None, s')" "r = Failed Download_failed"
  | fn yr ds pd s1 t bs s2 where "filename_attr p = Some fn" "created_parts p = Some (yr, ds)"
      "make_photo_dir p b pt alb loc (get_file_type_folder fn) yr s = (Some pd, s1)"
      "stage_original p s1 = (Some (t, bs), s2)"
      "(id_attr p, ds, sha256 L bs, length bs) \<in> unique_photo_keys s2"
      "r = Duplicate" "s' = os_remove t s2"
  | fn yr ds pd s1 t bs s2 where "filename_attr p = Some fn" "created_parts p = Some (yr, ds)"
      "make_photo_dir p b pt alb loc (get_file_type_folder fn) yr s = (Some pd, s1)"
      "stage_original p s1 = (Some (t, bs), s2)"
      "(id_attr p, ds, sha256 L bs, length bs) \<notin> unique_photo_keys s2"
      "finish_photo L p pt alb (get_file_type_folder fn) yr pd (ds @ ''_'' @ fn) t
         (s2\<lparr>unique_photo_keys := insert (id_attr p, ds, sha256 L bs, length bs) (unique_photo_keys s2)\<rparr>)
       = (r, s')"
  using assms
  by (auto simp: process_photo_def Let_def split: option.splits prod.splits if_splits)

lemma process_photo_stats:
  assumes "process_photo L p b pt alb loc s = (r, s')"
  shows "case r of Success il fp \<Rightarrow> stats_total (stats s') = stats_total (stats s) + 1
         | _ \<Rightarrow> stats s' = stats s"
  using assms
proof (cases rule: process_photo_phases)
  case (mkdir fn yr ds)
  then show ?thesis using make_photo_dir_grow [OF mkdir(3)] by (simp add: dirs_grow_def)
next
  case (download fn yr ds pd s1)
  then show ?thesis
    using make_photo_dir_grow [OF download(3)] stage_original_frame [OF download(4)]
    by (simp add: dirs_grow_def)
next
  case (duplicate fn yr ds pd s1 t bs s2)
  then show ?thesis
    using make_photo_dir_grow [OF duplicate(3)] stage_original_frame [OF duplicate(4)]
    by (simp add: dirs_grow_def os_remove_def)
next
  case (finish fn yr ds pd s1 t bs s2)
  from make_photo_dir_grow [OF finish(3)] stage_original_frame [OF finish(4)]
  have "stats s2 = stats s" by (simp add: dirs_grow_def)
  with finish_photo_stats [OF finish(6)] show ?thesis
    by (simp split: presult.splits)
qed simp_all

lemma process_photo_keys_mono:
  assumes "process_photo L p b pt alb loc s = (r, s')"
  shows "unique_photo_keys s \<subseteq> unique_photo_keys s'"
  using assms
proof (cases rule: process_photo_phases)
  case (mkdir fn yr ds)
  then show ?thesis using make_photo_dir_grow [OF mkdir(3)] by (simp add: dirs_grow_def)
next
  case (download fn yr ds pd s1)
  then show ?thesis
    using make_photo_dir_grow [OF download(3)] stage_original_frame [OF download(4)]
    by (simp add: dirs_grow_def)
next
  case (duplicate fn yr ds pd s1 t bs s2)
  then show ?thesis
    using make_photo_dir_grow [OF duplicate(3)] stage_original_frame [OF duplicate(4)]
    by (simp add: dirs_grow_def os_remove_def)
next
  case (finish fn yr ds pd s1 t bs s2)
  from make_photo_dir_grow [OF finish(3)] stage_original_frame [OF finish(4)]
  have "unique_photo_keys s2 = unique_photo_keys s" by (simp add: dirs_grow_def)
  with finish_photo_keys [OF finish(6)] show ?thesis by auto
qed simp_all


text \<open>A photo whose key is in the set is not committed: no file, no statistics.\<close>

lemma process_photo_duplicate:
  assumes key: "unique_key_of L p = Some k"
      and seen: "k \<in> unique_photo_keys s"
      and run: "process_photo L p b pt alb loc s = (r, s')"
  shows "(r = Duplicate \<or> r = Failed Mkdir_failed) \<and> files s' = files s \<and> stats s' = stats s \<and>
         unique_photo_keys s' = unique_photo_keys s \<and> denied s' = denied s \<and>
         set (dirs s) \<subseteq> set (dirs s') \<and>
         (r = Duplicate \<longrightarrow>
            AList.delete (tmp_next s) (tmp s') = AList.delete (tmp_next s) (tmp s) \<and>
            map_of (tmp s') (tmp_next s) = None)"
  using run
proof (cases rule: process_photo_phases)
  case escaped
  with key show ?thesis by (simp add: unique_key_of_def)
next
  case (bad_created fn)
  with key show ?thesis by (simp add: unique_key_of_def)
next
  case (mkdir fn yr ds)
  then show ?thesis using make_photo_dir_grow [OF mkdir(3)] by (simp add: dirs_grow_def)
next
  case (download fn yr ds pd s1)
  with key stage_original_None [OF download(4)] show ?thesis
    by (auto simp: unique_key_of_def split: fetch.splits)
next
  case (duplicate fn yr ds pd s1 t bs s2)
  note g = make_photo_dir_grow [OF duplicate(3)]
  note f = stage_original_frame [OF duplicate(4)]
  note st = stage_original_Some [OF duplicate(4)]
  from g have g1: "tmp_next s1 = tmp_next s" and g2: "tmp s1 = tmp s" by (simp_all add: dirs_grow_def)
  from st have "t = tmp_next s1" by simp
  then have t: "t = tmp_next s" by (simp only: g1)
  from st have "AList.delete (tmp_next s1) (tmp s2) = AList.delete (tmp_next s1) (tmp s1)" by simp
  then have del: "AList.delete (tmp_next s) (tmp s2) = AList.delete (tmp_next s) (tmp s)"
    by (simp only: g1 g2)
  have tmp': "tmp s' = AList.delete (tmp_next s) (tmp s2)"
    using duplicate(7) t by (simp add: os_remove_def)
  have "AList.delete (tmp_next s) (tmp s') = AList.delete (tmp_next s) (tmp s)"
    by (simp only: tmp' delete_idem del)
  moreover have "map_of (tmp s') (tmp_next s) = None"
    by (simp only: tmp' delete_conv') simp
  moreover have "files s' = files s \<and> stats s' = stats s \<and>
         unique_photo_keys s' = unique_photo_keys s \<and> denied s' = denied s \<and>
         set (dirs s) \<subseteq> set (dirs s')"
    using duplicate(7) g f by (simp add: dirs_grow_def os_remove_def)
  ultimately show ?thesis using duplicate(6) by simp
next
  case (finish fn yr ds pd s1 t bs s2)
  from stage_original_Some [OF finish(4)] have "download_original p = Fetched bs" by simp
  with key finish have k: "k = (id_attr p, ds, sha256 L bs, length bs)" by (simp add: unique_key_of_def)
  from make_photo_dir_grow [OF finish(3)] stage_original_frame [OF finish(4)]
  have "unique_photo_keys s2 = unique_photo_keys s" by (simp add: dirs_grow_def)
  with seen k finish(5) show ?thesis by simp
qed

section \<open>Keys stay, duplicates leave no trace\<close>

lemma run_photos_keys_mono:
  "unique_photo_keys s \<subseteq> unique_photo_keys (run_photos L base loc tasks s)"
proof (induction tasks arbitrary: s)
  case Nil
  show ?case by simp
next
  case (Cons task rest)
  obtain p pt alb where task: "task = (p, pt, alb)" by (cases task)
  obtain r s1 where step: "process_photo L p base pt alb loc s = (r, s1)"
    by (cases "process_photo L p base pt alb loc s")
  from process_photo_keys_mono [OF step] Cons.IH [of s1] show ?case
    by (auto simp: task step)
qed


text \<open>A call that fails in the move or in the statistics has added its key.\<close>

lemma process_photo_failed_commit:
  assumes key: "unique_key_of L p = Some k"
      and run: "process_photo L p b pt alb loc s = (Failed f, s')"
      and f: "f = Move_failed \<or> f = Stats_failed"
  shows "k \<notin> unique_photo_keys s \<and> unique_photo_keys s' = insert k (unique_photo_keys s)"
  using run
proof (cases rule: process_photo_phases)
  case (finish fn yr ds pd s1 t bs s2)
  from stage_original_Some [OF finish(4)] have "download_original p = Fetched bs" by simp
  with key finish have k: "k = (id_attr p, ds, sha256 L bs, length bs)" by (simp add: unique_key_of_def)
  from make_photo_dir_grow [OF finish(3)] stage_original_frame [OF finish(4)]
  have same: "unique_photo_keys s2 = unique_photo_keys s" by (simp add: dirs_grow_def)
  from finish_photo_keys [OF finish(6)] finish(5) same show ?thesis by (simp add: k)
qed (use f in auto)

text \<open>
  Claim C9. A call of \<^verbatim>\<open>process_photo\<close> that got past the uniqueness check and then
  failed in the move (or in the statistics, after the move) had a key that was not yet
  in \<^verbatim>\<open>unique_photo_keys\<close>, and leaves the set with exactly that key added. The key stays
  through any further calls of the run, and a later asset with the same key is not
  tried again: its call ends as a duplicate (or earlier, if its directory cannot be
  created), writes no file and counts nothing.
\<close>

theorem failed_commit_keeps_key:
  assumes ka: "unique_key_of L a = Some k"
      and kb: "unique_key_of L b = Some k"
      and first: "process_photo L a base pta alba loc s = (Failed f, s1)"
      and f: "f = Move_failed \<or> f = Stats_failed"
      and later: "s2 = run_photos L base loc tasks s1"
      and again: "process_photo L b base ptb albb loc s2 = (rb, s3)"
  shows "k \<notin> unique_photo_keys s
       \<and> unique_photo_keys s1 = insert k (unique_photo_keys s)
       \<and> k \<in> unique_photo_keys s2
       \<and> (rb = Duplicate \<or> rb = Failed Mkdir_failed)
       \<and> files s3 = files s2 \<and> stats s3 = stats s2
       \<and> unique_photo_keys s3 = unique_photo_keys s2"
proof -
  note a = process_photo_failed_commit [OF ka first f]
  then have "k \<in> unique_photo_keys s1" by simp
  with run_photos_keys_mono [of s1 L base loc tasks] have k2: "k \<in> unique_photo_keys s2"
    by (auto simp: later)
  from process_photo_duplicate [OF kb k2 again] a k2 show ?thesis by simp
qed

text \<open>
  Claim C10. A call that ends as a duplicate (line 348) has downloaded the bytes into
  the temporary file named by \<open>tmp_next\<close> and has removed that file again; the other
  temporary files, every destination file, the statistics and the key set are as
  before; directories may have been added. An asset skipped by its id in the loop of
  \<^verbatim>\<open>download_all_photos\<close> does not reach \<^verbatim>\<open>process_photo\<close> and leaves all of that state
  as it is.
\<close>

theorem duplicate_leaves_output_alone:
  "(process_photo L p b pt alb loc s = (Duplicate, s') \<longrightarrow>
      (\<exists>bs. download_original p = Fetched bs)
      \<and> map_of (tmp s') (tmp_next s) = None
      \<and> AList.delete (tmp_next s) (tmp s') = AList.delete (tmp_next s) (tmp s)
      \<and> files s' = files s \<and> stats s' = stats s
      \<and> unique_photo_keys s' = unique_photo_keys s
      \<and> set (dirs s) \<subseteq> set (dirs s'))
   \<and> (get_unique_photo_id p \<in> processed_ids st \<longrightarrow>
        ps (process_one L b loc sec alb n i p st) = ps st)"
proof (rule conjI; rule impI)
  assume run: "process_photo L p b pt alb loc s = (Duplicate, s')"
  from run show "(\<exists>bs. download_original p = Fetched bs)
      \<and> map_of (tmp s') (tmp_next s) = None
      \<and> AList.delete (tmp_next s) (tmp s') = AList.delete (tmp_next s) (tmp s)
      \<and> files s' = files s \<and> stats s' = stats s
      \<and> unique_photo_keys s' = unique_photo_keys s
      \<and> set (dirs s) \<subseteq> set (dirs s')"
  proof (cases rule: process_photo_phases)
    case (duplicate fn yr ds pd s1 t bs s2)
    from stage_original_Some [OF duplicate(4)] have fetched: "download_original p = Fetched bs" by simp
    with duplicate have key: "unique_key_of L p = Some (id_attr p, ds, sha256 L bs, length bs)"
      by (simp add: unique_key_of_def)
    from make_photo_dir_grow [OF duplicate(3)] stage_original_frame [OF duplicate(4)] duplicate(5)
    have seen: "(id_attr p, ds, sha256 L bs, length bs) \<in> unique_photo_keys s"
      by (simp add: dirs_grow_def)
    from process_photo_duplicate [OF key seen run] fetched show ?thesis by simp
  next
    case (finish fn yr ds pd s1 t bs s2)
    with finish_photo_results [OF finish(6)] show ?thesis by simp
  qed simp_all
next
  assume "get_unique_photo_id p \<in> processed_ids st"
  then show "ps (process_one L b loc sec alb n i p st) = ps st"
    by (simp add: process_one_def log_entry_def Let_def)
qed

section \<open>Sample assets and file systems\<close>

text \<open>A digest that is the content itself, no EXIF rewriting, an empty disk, and one asset.\<close>

definition sample_lib :: lib where
  "sample_lib = \<lparr>sha256 = (\<lambda>bs. bs), exif_insert = (\<lambda>c l bs. None)\<rparr>"

definition empty_world :: pstate where
  "empty_world = \<lparr>files = [], dirs = [], denied = [], tmp = [], tmp_next = 0,
                   unique_photo_keys = {}, stats = []\<rparr>"

definition sample_date :: datetime where
  "sample_date = \<lparr>dt_year = 2024, dt_month = 3, dt_day = 1, dt_hour = 10, dt_minute = 0, dt_second = 0\<rparr>"

definition photo_a1 :: photo where
  "photo_a1 = \<lparr>id_attr = Some ''A1'', filename_attr = Some ''IMG_1.heic'', created_attr = Has sample_date,
      location_attr = No_location, location_enc = No_enc, versions_attr = None,
      download_original = Fetched ''abc'', download_video = Fetch_error\<rparr>"

definition seen_world :: pstate where
  "seen_world = empty_world\<lparr>unique_photo_keys := {(Some ''A1'', ''20240301_100000'', ''abc'', 3)}\<rparr>"

definition refusing_world :: pstate where
  "refusing_world = empty_world\<lparr>denied := [''/out/Personal/HEIC/2024/20240301_100000_IMG_1.heic'']\<rparr>"

definition after_refusal :: pstate where
  "after_refusal =
     refusing_world\<lparr>dirs := [''/out/Personal/HEIC/2024'', ''/out/Personal/HEIC''],
                    tmp := [(0, ''abc'')], tmp_next := 1,
                    unique_photo_keys := {(Some ''A1'', ''20240301_100000'', ''abc'', 3)}\<rparr>"

definition id_seen_state :: rstate where
  "id_seen_state = \<lparr>ps = empty_world, processed_ids = {''A1''}, total_downloaded = 1, errors = 0,
                     skipped = 0, log = [], entry_counter = 1\<rparr>"

lemma photo_a1_key:
  "unique_key_of sample_lib photo_a1 = Some (Some ''A1'', ''20240301_100000'', ''abc'', 3)"
  by code_simp

lemma refusing_world_run:
  "process_photo sample_lib photo_a1 ''/out'' ''Personal'' None False refusing_world
     = (Failed Move_failed, after_refusal)"
  by code_simp

lemma after_refusal_run:
  "process_photo sample_lib photo_a1 ''/out'' ''Shared_With_Me'' None False after_refusal
     = (Duplicate,
        after_refusal\<lparr>dirs := [''/out/Shared_With_Me/HEIC/2024'', ''/out/Shared_With_Me/HEIC'',
                                ''/out/Personal/HEIC/2024'', ''/out/Personal/HEIC''],
                       tmp_next := 2\<rparr>)"
  by code_simp

theorem failed_commit_keeps_key_witness:
  "unique_key_of sample_lib photo_a1 = Some (Some ''A1'', ''20240301_100000'', ''abc'', 3)
   \<and> process_photo sample_lib photo_a1 ''/out'' ''Personal'' None False refusing_world
       = (Failed Move_failed, after_refusal)
   \<and> after_refusal = run_photos sample_lib ''/out'' False [] after_refusal
   \<and> process_photo sample_lib photo_a1 ''/out'' ''Shared_With_Me'' None False after_refusal
       = (Duplicate,
          after_refusal\<lparr>dirs := [''/out/Shared_With_Me/HEIC/2024'', ''/out/Shared_With_Me/HEIC'',
                                  ''/out/Personal/HEIC/2024'', ''/out/Personal/HEIC''],
                         tmp_next := 2\<rparr>)
   \<and> (Some ''A1'', ''20240301_100000'', ''abc'', 3) \<notin> unique_photo_keys refusing_world
   \<and> (Some ''A1'', ''20240301_100000'', ''abc'', 3) \<in> unique_photo_keys after_refusal
   \<and> files (after_refusal\<lparr>dirs := [''/out/Shared_With_Me/HEIC/2024'', ''/out/Shared_With_Me/HEIC'',
                                  ''/out/Personal/HEIC/2024'', ''/out/Personal/HEIC''],
                         tmp_next := 2\<rparr>) = files after_refusal"
proof -
  have later: "after_refusal = run_photos sample_lib ''/out'' False [] after_refusal" by simp
  have f: "Move_failed = Move_failed \<or> Move_failed = Stats_failed" by simp
  note t = failed_commit_keeps_key [OF photo_a1_key photo_a1_key refusing_world_run f later after_refusal_run]
  from t have c1: "(Some ''A1'', ''20240301_100000'', ''abc'', 3) \<notin> unique_photo_keys refusing_world"
    by (rule conjunct1)
  from t have c2: "(Some ''A1'', ''20240301_100000'', ''abc'', 3) \<in> unique_photo_keys after_refusal"
    by blast
  from t have c3: "files (after_refusal\<lparr>dirs := [''/out/Shared_With_Me/HEIC/2024'', ''/out/Shared_With_Me/HEIC'',
                                  ''/out/Personal/HEIC/2024'', ''/out/Personal/HEIC''],
                         tmp_next := 2\<rparr>) = files after_refusal"
    by blast
  show ?thesis
    by (intro conjI) (rule photo_a1_key refusing_world_run later after_refusal_run c1 c2 c3)+
qed

lemma seen_world_run:
  "process_photo sample_lib photo_a1 ''/out'' ''Shared_With_Me'' None False seen_world
     = (Duplicate,
        seen_world\<lparr>dirs := [''/out/Shared_With_Me/HEIC/2024'', ''/out/Shared_With_Me/HEIC''],
                    tmp_next := 1\<rparr>)"
  by code_simp

lemma id_seen: "get_unique_photo_id photo_a1 \<in> processed_ids id_seen_state"
  by code_simp

theorem duplicate_leaves_output_alone_witness:
  "process_photo sample_lib photo_a1 ''/out'' ''Shared_With_Me'' None False seen_world
     = (Duplicate,
        seen_world\<lparr>dirs := [''/out/Shared_With_Me/HEIC/2024'', ''/out/Shared_With_Me/HEIC''],
                    tmp_next := 1\<rparr>)
   \<and> map_of (tmp (seen_world\<lparr>dirs := [''/out/Shared_With_Me/HEIC/2024'', ''/out/Shared_With_Me/HEIC''],
                    tmp_next := 1\<rparr>)) (tmp_next seen_world) = None
   \<and> files (seen_world\<lparr>dirs := [''/out/Shared_With_Me/HEIC/2024'', ''/out/Shared_With_Me/HEIC''],
                    tmp_next := 1\<rparr>) = files seen_world
   \<and> get_unique_photo_id photo_a1 \<in> processed_ids id_seen_state
   \<and> ps (process_one sample_lib ''/out'' False Shared_With_Me None 1 1 photo_a1 id_seen_state)
       = ps id_seen_state"
proof -
  note t = duplicate_leaves_output_alone [of sample_lib photo_a1 "''/out''" "''Shared_With_Me''" None False
      seen_world "seen_world\<lparr>dirs := [''/out/Shared_With_Me/HEIC/2024'', ''/out/Shared_With_Me/HEIC''],
                    tmp_next := 1\<rparr>" id_seen_state Shared_With_Me 1 1]
  from t seen_world_run
  have c1: "map_of (tmp (seen_world\<lparr>dirs := [''/out/Shared_With_Me/HEIC/2024'', ''/out/Shared_With_Me/HEIC''],
                    tmp_next := 1\<rparr>)) (tmp_next seen_world) = None"
    by blast
  from t seen_world_run
  have c2: "files (seen_world\<lparr>dirs := [''/out/Shared_With_Me/HEIC/2024'', ''/out/Shared_With_Me/HEIC''],
                    tmp_next := 1\<rparr>) = files seen_world"
    by blast
  from t id_seen
  have c3: "ps (process_one sample_lib ''/out'' False Shared_With_Me None 1 1 photo_a1 id_seen_state)
       = ps id_seen_state"
    by blast
  show ?thesis
    by (intro conjI) (rule seen_world_run id_seen c1 c2 c3)+
qed

section \<open>Statistics, counters and the log agree\<close>

text \<open>The number of log entries of level \<^verbatim>\<open>SUCCESS\<close>.\<close>

definition success_count :: "(nat \<times> level \<times> msg) list \<Rightarrow> nat" where
  "success_count lg = length (filter (\<lambda>e. fst (snd e) = SUCCESS) lg)"

text \<open>The sum of the leaves, the counter of downloads and the \<^verbatim>\<open>SUCCESS\<close> entries agree.\<close>

definition consistent :: "rstate \<Rightarrow> bool" where
  "consistent st =
     (stats_total (stats (ps st)) = total_downloaded st \<and> success_count (log st) = total_downloaded st)"

lemma consistent_log_entry:
  "lvl \<noteq> SUCCESS \<Longrightarrow> consistent (log_entry m lvl st) = consistent st"
  by (simp add: consistent_def log_entry_def success_count_def)

lemma consistent_info: "consistent (info text st) = consistent st"
  by (simp add: info_def consistent_log_entry)

lemma consistent_rule_line: "consistent (rule_line st) = consistent st"
  by (simp add: rule_line_def consistent_info)

lemma consistent_progress_update:
  "consistent (progress_update sec i n st) = consistent st"
  by (simp add: progress_update_def consistent_log_entry)

lemma consistent_log_lines: "consistent (log_lines ms st) = consistent st"
  unfolding log_lines_def
  by (induction ms arbitrary: st) (simp_all add: consistent_log_entry)

text \<open>One round of the loop: a skip, or a call of \<^verbatim>\<open>process_photo\<close> and its bookkeeping.\<close>

lemma process_one_cases [case_names skipped processed]:
  obtains
    "get_unique_photo_id p \<in> processed_ids st"
    "process_one L out loc sec alb n i p st =
       log_entry (Skip_duplicate sec (get_unique_photo_id p) (filename_or_unknown p)) INFO
         (st\<lparr>skipped := skipped st + 1\<rparr>)"
  | r w where
    "get_unique_photo_id p \<notin> processed_ids st"
    "process_photo L p out (photo_type_of sec) alb loc (ps st) = (r, w)"
    "ps (process_one L out loc sec alb n i p st) = w"
    "total_downloaded (process_one L out loc sec alb n i p st)
       = total_downloaded st + (if is_success r then 1 else 0)"
    "success_count (log (process_one L out loc sec alb n i p st))
       = success_count (log st) + (if is_success r then 1 else 0)"
    "errors (process_one L out loc sec alb n i p st) = errors st + (if is_success r then 0 else 1)"
    "skipped (process_one L out loc sec alb n i p st) = skipped st"
    "processed_ids (process_one L out loc sec alb n i p st)
       = (if is_success r then insert (get_unique_photo_id p) (processed_ids st) else processed_ids st)"
proof (cases "get_unique_photo_id p \<in> processed_ids st")
  case True
  then show ?thesis using that(1) by (simp add: process_one_def Let_def)
next
  case False
  obtain r w where run: "process_photo L p out (photo_type_of sec) alb loc (ps st) = (r, w)"
    by (cases "process_photo L p out (photo_type_of sec) alb loc (ps st)")
  show ?thesis
  proof (rule that(2) [OF False run])
    show "ps (process_one L out loc sec alb n i p st) = w"
      using False run
      by (simp add: process_one_def Let_def log_entry_def progress_update_def split: presult.splits)
    show "total_downloaded (process_one L out loc sec alb n i p st)
       = total_downloaded st + (if is_success r then 1 else 0)"
      using False run
      by (simp add: process_one_def Let_def log_entry_def progress_update_def is_success_def
               split: presult.splits)
    show "success_count (log (process_one L out loc sec alb n i p st))
       = success_count (log st) + (if is_success r then 1 else 0)"
      using False run
      by (simp add: process_one_def Let_def log_entry_def progress_update_def is_success_def
                    success_count_def split: presult.splits)
    show "errors (process_one L out loc sec alb n i p st) = errors st + (if is_success r then 0 else 1)"
      using False run
      by (simp add: process_one_def Let_def log_entry_def progress_update_def is_success_def
               split: presult.splits)
    show "skipped (process_one L out loc sec alb n i p st) = skipped st"
      using False run
      by (simp add: process_one_def Let_def log_entry_def progress_update_def split: presult.splits)
    show "processed_ids (process_one L out loc sec alb n i p st)
       = (if is_success r then insert (get_unique_photo_id p) (processed_ids st) else processed_ids st)"
      using False run
      by (simp add: process_one_def Let_def log_entry_def progress_update_def is_success_def
               split: presult.splits)
  qed
qed

lemma consistent_process_one:
  assumes "consistent st"
  shows "consistent (process_one L out loc sec alb n i p st)"
proof (cases rule: process_one_cases [of p st L out loc sec alb n i])
  case skipped
  with assms show ?thesis
    by (simp add: consistent_log_entry) (simp add: consistent_def)
next
  case (processed r w)
  from process_photo_stats [OF processed(2)]
  have "stats_total (stats w) = stats_total (stats (ps st)) + (if is_success r then 1 else 0)"
    by (auto simp: is_success_def split: presult.splits)
  with assms processed show ?thesis by (simp add: consistent_def)
qed

lemma consistent_photos_loop:
  "consistent st \<Longrightarrow> consistent (photos_loop L out loc sec alb n i photos st)"
  by (induction photos arbitrary: i st) (simp_all add: consistent_process_one)

lemma consistent_albums_loop:
  "consistent st \<Longrightarrow> consistent (albums_loop L out loc n idx albums st)"
  by (induction albums arbitrary: idx st)
     (simp_all add: consistent_log_entry consistent_photos_loop split: option.splits)

lemma consistent_personal_section:
  "consistent st \<Longrightarrow> consistent (personal_section L a out loc st)"
  by (simp add: personal_section_def Let_def consistent_rule_line consistent_info
                consistent_log_entry consistent_photos_loop split: option.splits)

lemma consistent_shared_section:
  "consistent st \<Longrightarrow> consistent (shared_section L a out loc st)"
  by (simp add: shared_section_def Let_def consistent_rule_line consistent_info
                consistent_log_entry consistent_photos_loop split: option.splits)

lemma consistent_albums_section:
  "consistent st \<Longrightarrow> consistent (albums_section L a out loc st)"
  by (simp add: albums_section_def Let_def consistent_rule_line consistent_info
                consistent_log_entry consistent_albums_loop split: option.splits)

lemma consistent_stats_block:
  "consistent st \<Longrightarrow> consistent (snd (stats_block key heading lines st))"
  by (simp add: stats_block_def consistent_log_lines consistent_info split: option.splits)

lemma consistent_final_summary:
  assumes "consistent st"
  shows "consistent (snd (final_summary st))"
proof -
  let ?st7 = "rule_line (info ''DETAILED STATISTICS'' (rule_line
      (log_entry (Line ''Success rate'' [] [total_downloaded st, errors st]) INFO
      (log_entry (Line ''Skipped duplicates across sections'' [] [skipped st]) INFO
      (log_entry (Line ''Total unique assets processed'' [] [card (processed_ids st)]) INFO
      (log_entry (Line ''Errors encountered'' [] [errors st]) INFO
      (log_entry (Line ''Total files downloaded'' [] [total_downloaded st]) INFO
      (rule_line (info ''DOWNLOAD SESSION COMPLETE'' (rule_line st))))))))))"
  have c7: "consistent ?st7"
    using assms by (simp add: consistent_rule_line consistent_info consistent_log_entry)
  have eq: "final_summary st =
     (case stats_block ''Personal'' ''Personal Library Statistics:'' type_stats_lines ?st7 of
           (False, st8) \<Rightarrow> (False, st8)
         | (True, st8) \<Rightarrow>
             (case stats_block ''Shared_With_Me'' ''Shared With Me Statistics:'' type_stats_lines st8 of
                (False, st9) \<Rightarrow> (False, st9)
              | (True, st9) \<Rightarrow>
                  (case stats_block ''Shared_Albums'' ''Shared Albums Statistics:'' album_stats_lines st9 of
                     (False, st10) \<Rightarrow> (False, st10)
                   | (True, st10) \<Rightarrow>
                       (True, rule_line (info ''Download session ended'' (rule_line st10))))))"
    by (simp add: final_summary_def Let_def log_entry_def info_def rule_line_def)
  obtain b8 st8 where s8: "stats_block ''Personal'' ''Personal Library Statistics:'' type_stats_lines ?st7 = (b8, st8)"
    by (cases "stats_block ''Personal'' ''Personal Library Statistics:'' type_stats_lines ?st7")
  obtain b9 st9 where s9: "stats_block ''Shared_With_Me'' ''Shared With Me Statistics:'' type_stats_lines st8 = (b9, st9)"
    by (cases "stats_block ''Shared_With_Me'' ''Shared With Me Statistics:'' type_stats_lines st8")
  obtain b10 st10 where s10: "stats_block ''Shared_Albums'' ''Shared Albums Statistics:'' album_stats_lines st9 = (b10, st10)"
    by (cases "stats_block ''Shared_Albums'' ''Shared Albums Statistics:'' album_stats_lines st9")
  from consistent_stats_block [OF c7, of "''Personal''" "''Personal Library Statistics:''" type_stats_lines] s8
  have c8: "consistent st8" by simp
  from consistent_stats_block [OF c8, of "''Shared_With_Me''" "''Shared With Me Statistics:''" type_stats_lines] s9
  have c9: "consistent st9" by simp
  from consistent_stats_block [OF c9, of "''Shared_Albums''" "''Shared Albums Statistics:''" album_stats_lines] s10
  have c10: "consistent st10" by simp
  show ?thesis
    unfolding eq s8
    using c8 c9 c10 s9 s10
    by (cases b8; cases b9; cases b10) (simp_all add: consistent_rule_line consistent_info)
qed

lemma consistent_initial_state: "consistent (initial_state w)"
  by (simp add: consistent_def initial_state_def stats_total_def success_count_def)

lemma consistent_download_all_photos:
  "consistent (snd (download_all_photos L a out opts loc w))"
proof (cases "os_makedirs out (ps (initial_state w))")
  case None
  then show ?thesis by (simp add: download_all_photos_def Let_def consistent_initial_state)
next
  case (Some w1)
  from os_makedirs_grow [OF Some] consistent_initial_state [of w]
  have "consistent ((initial_state w)\<lparr>ps := w1\<rparr>)"
    by (simp add: consistent_def dirs_grow_def)
  then show ?thesis
    using Some
    by (simp add: download_all_photos_def Let_def consistent_final_summary consistent_info
                  consistent_personal_section consistent_shared_section consistent_albums_section)
qed

text \<open>
  One leaf of \<^verbatim>\<open>stats\<close>: \<^verbatim>\<open>stats[sec][key]\<close> when \<open>yr\<close> is \<open>None\<close> and the entry is a
  count, \<^verbatim>\<open>stats[sec][key][y]\<close> when \<open>yr\<close> is \<open>Some y\<close> and the entry is a dictionary; a leaf
  that is not there counts as zero.
\<close>

definition leaf_entry :: "stat_entry \<Rightarrow> year_key option \<Rightarrow> nat" where
  "leaf_entry e yr =
     (case e of
        Count n \<Rightarrow> (case yr of None \<Rightarrow> n | Some y \<Rightarrow> 0)
      | Years ys \<Rightarrow> (case yr of None \<Rightarrow> 0 | Some y \<Rightarrow> (case map_of ys y of None \<Rightarrow> 0 | Some n \<Rightarrow> n)))"

definition leaf_in :: "(string \<times> stat_entry) list \<Rightarrow> string \<Rightarrow> year_key option \<Rightarrow> nat" where
  "leaf_in d key yr = (case map_of d key of None \<Rightarrow> 0 | Some e \<Rightarrow> leaf_entry e yr)"

definition leaf :: "stats \<Rightarrow> string \<Rightarrow> string \<Rightarrow> year_key option \<Rightarrow> nat" where
  "leaf st sec key yr = (case map_of st sec of None \<Rightarrow> 0 | Some d \<Rightarrow> leaf_in d key yr)"

lemma leaf_update:
  "leaf (AList.update sec d st) sec' key yr = (if sec' = sec then leaf_in d key yr else leaf st sec' key yr)"
  by (simp add: leaf_def update_conv')

lemma leaf_in_update:
  "leaf_in (AList.update key e d) key' yr = (if key' = key then leaf_entry e yr else leaf_in d key' yr)"
  by (simp add: leaf_in_def update_conv')

lemma leaf_in_section:
  "leaf_in (case map_of st sec of None \<Rightarrow> [] | Some d \<Rightarrow> d) key yr = leaf st sec key yr"
  by (simp add: leaf_def leaf_in_def split: option.splits)

lemma update_stats_album:
  assumes "album_given album_name"
      and "update_stats photo_type album_name file_type yr st = Some st'"
  shows "\<exists>n. map_of (case map_of st ''Shared_Albums'' of None \<Rightarrow> [] | Some d \<Rightarrow> d) (album_str album_name)
               \<in> {None, Some (Count n)} \<and>
             (map_of (case map_of st ''Shared_Albums'' of None \<Rightarrow> [] | Some d \<Rightarrow> d) (album_str album_name) = None
                \<longrightarrow> n = 0) \<and>
             st' = AList.update ''Shared_Albums''
                     (AList.update (album_str album_name) (Count (n + 1))
                        (case map_of st ''Shared_Albums'' of None \<Rightarrow> [] | Some d \<Rightarrow> d)) st"
  using assms
  by (simp add: update_stats_def Let_def split: option.splits stat_entry.splits)

lemma update_stats_section:
  assumes "\<not> album_given album_name"
      and "update_stats photo_type album_name file_type yr st = Some st'"
  shows "\<exists>ys k. map_of (case map_of st photo_type of None \<Rightarrow> [] | Some d \<Rightarrow> d) file_type
               \<in> {None, Some (Years ys)} \<and>
             (map_of (case map_of st photo_type of None \<Rightarrow> [] | Some d \<Rightarrow> d) file_type = None
                \<longrightarrow> ys = []) \<and>
             k = (case map_of ys yr of None \<Rightarrow> 0 | Some m \<Rightarrow> m) \<and>
             st' = AList.update photo_type
                     (AList.update file_type (Years (AList.update yr (k + 1) ys))
                        (case map_of st photo_type of None \<Rightarrow> [] | Some d \<Rightarrow> d)) st"
proof -
  let ?d = "case map_of st photo_type of None \<Rightarrow> [] | Some d \<Rightarrow> d"
  show ?thesis
  proof (cases "map_of ?d file_type")
    case None
    with assms have "st' = AList.update photo_type (AList.update file_type (Years [(yr, 1)]) ?d) st"
      by (simp add: update_stats_def Let_def)
    with None show ?thesis
      by (intro exI [of _ "[]"] exI [of _ 0]) simp
  next
    case (Some e)
    show ?thesis
    proof (cases e)
      case (Count n)
      with assms Some show ?thesis by (simp add: update_stats_def Let_def)
    next
      case (Years ys)
      with assms Some have "st' = AList.update photo_type
          (AList.update file_type
             (Years (AList.update yr ((case map_of ys yr of None \<Rightarrow> 0 | Some m \<Rightarrow> m) + 1) ys)) ?d) st"
        by (simp add: update_stats_def Let_def split: option.splits)
      with Some Years show ?thesis
        by (intro exI [of _ ys] exI [of _ "case map_of ys yr of None \<Rightarrow> 0 | Some m \<Rightarrow> m"]) simp
    qed
  qed
qed

lemma update_stats_one_leaf:
  assumes "update_stats photo_type album_name file_type yr st = Some st'"
  shows "\<exists>sec key y. leaf st' sec key y = leaf st sec key y + 1 \<and>
           (\<forall>sec' key' y'. (sec', key', y') \<noteq> (sec, key, y) \<longrightarrow>
                leaf st' sec' key' y' = leaf st sec' key' y')"
proof (cases "album_given album_name")
  case True
  let ?sec = "''Shared_Albums''"
  let ?d = "case map_of st ?sec of None \<Rightarrow> [] | Some d \<Rightarrow> d"
  let ?a = "album_str album_name"
  from update_stats_album [OF True assms] obtain n where
    shape: "map_of ?d ?a \<in> {None, Some (Count n)} \<and> (map_of ?d ?a = None \<longrightarrow> n = 0) \<and>
            st' = AList.update ?sec (AList.update ?a (Count (n + 1)) ?d) st" ..
  note old = shape [THEN conjunct1]
  note zero = shape [THEN conjunct2, THEN conjunct1]
  note st' = shape [THEN conjunct2, THEN conjunct2]
  have before: "leaf_in ?d ?a y' = (case y' of None \<Rightarrow> n | Some y \<Rightarrow> 0)" for y'
    using old zero by (auto simp: leaf_in_def leaf_entry_def split: option.splits)
  have after: "leaf st' sec' key' y' =
      (if sec' = ?sec then (if key' = ?a then leaf_entry (Count (n + 1)) y' else leaf_in ?d key' y')
       else leaf st sec' key' y')" for sec' key' y'
    unfolding st' by (simp only: leaf_update leaf_in_update)
  have here: "leaf st ?sec key' y' = leaf_in ?d key' y'" for key' y'
    by (simp only: leaf_in_section)
  have "leaf st' ?sec ?a None = leaf st ?sec ?a None + 1"
    by (simp add: after here before leaf_entry_def)
  moreover have "leaf st' sec' key' y' = leaf st sec' key' y'"
    if ne: "(sec', key', y') \<noteq> (?sec, ?a, None)" for sec' key' y'
  proof (cases "sec' = ?sec")
    case False
    then show ?thesis by (simp add: after)
  next
    case sec: True
    show ?thesis
    proof (cases "key' = ?a")
      case False
      with sec show ?thesis by (simp add: after here)
    next
      case key: True
      with sec ne obtain y where "y' = Some y" by (cases y') auto
      with sec key show ?thesis by (simp add: after here before leaf_entry_def)
    qed
  qed
  ultimately have "leaf st' ?sec ?a None = leaf st ?sec ?a None + 1 \<and>
      (\<forall>sec' key' y'. (sec', key', y') \<noteq> (?sec, ?a, None) \<longrightarrow>
          leaf st' sec' key' y' = leaf st sec' key' y')"
    by simp
  then show ?thesis by (intro exI)
next
  case False
  let ?d = "case map_of st photo_type of None \<Rightarrow> [] | Some d \<Rightarrow> d"
  from update_stats_section [OF False assms] obtain ys k where
    shape: "map_of ?d file_type \<in> {None, Some (Years ys)} \<and>
            (map_of ?d file_type = None \<longrightarrow> ys = []) \<and>
            k = (case map_of ys yr of None \<Rightarrow> 0 | Some m \<Rightarrow> m) \<and>
            st' = AList.update photo_type (AList.update file_type (Years (AList.update yr (k + 1) ys)) ?d) st"
    by (elim exE)
  note old = shape [THEN conjunct1]
  note empty = shape [THEN conjunct2, THEN conjunct1]
  note k = shape [THEN conjunct2, THEN conjunct2, THEN conjunct1]
  note st' = shape [THEN conjunct2, THEN conjunct2, THEN conjunct2]
  have before: "leaf_in ?d file_type y' =
                  (case y' of None \<Rightarrow> 0 | Some y \<Rightarrow> (case map_of ys y of None \<Rightarrow> 0 | Some m \<Rightarrow> m))" for y'
    using old empty by (auto simp: leaf_in_def leaf_entry_def split: option.splits)
  have after: "leaf st' sec' key' y' =
      (if sec' = photo_type
       then (if key' = file_type then leaf_entry (Years (AList.update yr (k + 1) ys)) y'
             else leaf_in ?d key' y')
       else leaf st sec' key' y')" for sec' key' y'
    unfolding st' by (simp only: leaf_update leaf_in_update)
  have here: "leaf st photo_type key' y' = leaf_in ?d key' y'" for key' y'
    by (simp only: leaf_in_section)
  have "leaf st' photo_type file_type (Some yr) = leaf st photo_type file_type (Some yr) + 1"
    by (simp add: after here before leaf_entry_def update_conv' k)
  moreover have "leaf st' sec' key' y' = leaf st sec' key' y'"
    if ne: "(sec', key', y') \<noteq> (photo_type, file_type, Some yr)" for sec' key' y'
  proof (cases "sec' = photo_type")
    case False
    then show ?thesis by (simp add: after)
  next
    case sec: True
    show ?thesis
    proof (cases "key' = file_type")
      case False
      with sec show ?thesis by (simp add: after here)
    next
      case key: True
      show ?thesis
      proof (cases y')
        case None
        with sec key show ?thesis by (simp add: after here before leaf_entry_def)
      next
        case (Some y)
        with sec key ne have "y \<noteq> yr" by auto
        with sec key Some show ?thesis
          by (simp add: after here before leaf_entry_def update_conv')
      qed
    qed
  qed
  ultimately have "leaf st' photo_type file_type (Some yr) = leaf st photo_type file_type (Some yr) + 1 \<and>
      (\<forall>sec' key' y'. (sec', key', y') \<noteq> (photo_type, file_type, Some yr) \<longrightarrow>
          leaf st' sec' key' y' = leaf st sec' key' y')"
    by simp
  then show ?thesis by (intro exI)
qed

lemma finish_photo_success_stats:
  assumes "finish_photo L p pt alb ft yr pd bf t s = (Success il fp, s')"
  shows "update_stats pt alb ft yr (stats s) = Some (stats s')"
  using assms
  by (auto simp: finish_photo_def commit_staged_def Let_def preserve_original_timestamps_frame
                 save_metadata_frame
           split: option.splits prod.splits attr.splits
           dest!: shutil_move_frame handle_live_photo_frame)

lemma process_photo_success_stats:
  assumes "process_photo L p b pt alb loc s = (Success il fp, s')"
  shows "\<exists>ft yr. update_stats pt alb ft yr (stats s) = Some (stats s')"
  using assms
proof (cases rule: process_photo_phases)
  case (finish fn yr ds pd s1 t bs s2)
  from make_photo_dir_grow [OF finish(3)] stage_original_frame [OF finish(4)]
  have "stats s2 = stats s" by (simp add: dirs_grow_def)
  with finish_photo_success_stats [OF finish(6)] show ?thesis by auto
qed simp_all

text \<open>
  At the end of \<^verbatim>\<open>download_all_photos\<close> (also when formatting the summary raises), the
  sum over all leaves of \<^verbatim>\<open>stats\<close>, the counter \<^verbatim>\<open>total_downloaded\<close> and the number of
  \<^verbatim>\<open>SUCCESS\<close> entries of the log are equal: all three count the calls of \<^verbatim>\<open>process_photo\<close>
  that returned success. One round of the loop adds one to the counter exactly when the
  asset is not skipped and its call succeeds. A call that succeeds adds one to one leaf
  and leaves every other leaf as it was; a call that does not succeed leaves \<^verbatim>\<open>stats\<close> as
  it was. Whether the three numbers count the files that were moved to their
  destination is another matter: see the section on files that are moved and not
  counted.
\<close>

lemma counters_agree:
  "stats_total (stats (ps (snd (download_all_photos L a out opts loc w))))
     = total_downloaded (snd (download_all_photos L a out opts loc w))
   \<and> success_count (log (snd (download_all_photos L a out opts loc w)))
     = total_downloaded (snd (download_all_photos L a out opts loc w))
   \<and> total_downloaded (process_one L out loc sec alb n i p st)
     = total_downloaded st +
         (if get_unique_photo_id p \<notin> processed_ids st \<and>
             is_success (fst (process_photo L p out (photo_type_of sec) alb loc (ps st)))
          then 1 else 0)
   \<and> (process_photo L p b pt alb loc s = (r, s') \<longrightarrow>
        (is_success r \<longrightarrow>
           stats_total (stats s') = stats_total (stats s) + 1 \<and>
           (\<exists>sec key y. leaf (stats s') sec key y = leaf (stats s) sec key y + 1 \<and>
              (\<forall>sec' key' y'. (sec', key', y') \<noteq> (sec, key, y) \<longrightarrow>
                 leaf (stats s') sec' key' y' = leaf (stats s) sec' key' y'))) \<and>
        (\<not> is_success r \<longrightarrow> stats s' = stats s))"
proof (intro conjI impI)
  from consistent_download_all_photos [of L a out opts loc w]
  show "stats_total (stats (ps (snd (download_all_photos L a out opts loc w))))
     = total_downloaded (snd (download_all_photos L a out opts loc w))"
    and "success_count (log (snd (download_all_photos L a out opts loc w)))
     = total_downloaded (snd (download_all_photos L a out opts loc w))"
    by (simp_all add: consistent_def)
next
  show "total_downloaded (process_one L out loc sec alb n i p st)
     = total_downloaded st +
         (if get_unique_photo_id p \<notin> processed_ids st \<and>
             is_success (fst (process_photo L p out (photo_type_of sec) alb loc (ps st)))
          then 1 else 0)"
  proof (cases rule: process_one_cases [of p st L out loc sec alb n i])
    case skipped
    then show ?thesis by (simp add: log_entry_def)
  next
    case (processed r w)
    then show ?thesis by simp
  qed
next
  assume run: "process_photo L p b pt alb loc s = (r, s')" and ok: "is_success r"
  from process_photo_stats [OF run] ok
  show "stats_total (stats s') = stats_total (stats s) + 1"
    by (auto simp: is_success_def split: presult.splits)
  from ok obtain il fp where r: "r = Success il fp"
    by (auto simp: is_success_def split: presult.splits)
  from process_photo_success_stats [OF run [unfolded r]]
  obtain ft yr where "update_stats pt alb ft yr (stats s) = Some (stats s')" by blast
  from update_stats_one_leaf [OF this]
  show "\<exists>sec key y. leaf (stats s') sec key y = leaf (stats s) sec key y + 1 \<and>
              (\<forall>sec' key' y'. (sec', key', y') \<noteq> (sec, key, y) \<longrightarrow>
                 leaf (stats s') sec' key' y' = leaf (stats s) sec' key' y')" .
next
  assume run: "process_photo L p b pt alb loc s = (r, s')" and ko: "\<not> is_success r"
  from process_photo_stats [OF run] ko
  show "stats s' = stats s"
    by (auto simp: is_success_def split: presult.splits)
qed

section \<open>Rounds and the key set\<close>



text \<open>What a round does to the counters when the asset is not skipped by its id.\<close>

lemma process_one_processed:
  assumes "get_unique_photo_id p \<notin> processed_ids st"
      and "process_photo L p out (photo_type_of sec) alb loc (ps st) = (r, w)"
  shows "ps (process_one L out loc sec alb n i p st) = w
       \<and> total_downloaded (process_one L out loc sec alb n i p st)
           = total_downloaded st + (if is_success r then 1 else 0)
       \<and> errors (process_one L out loc sec alb n i p st) = errors st + (if is_success r then 0 else 1)
       \<and> skipped (process_one L out loc sec alb n i p st) = skipped st
       \<and> processed_ids (process_one L out loc sec alb n i p st)
           = (if is_success r then insert (get_unique_photo_id p) (processed_ids st) else processed_ids st)"
proof (cases rule: process_one_cases [of p st L out loc sec alb n i])
  case skipped
  with assms show ?thesis by simp
next
  case (processed r' w')
  with assms show ?thesis by simp
qed



lemma photo_a1_uid: "get_unique_photo_id photo_a1 = ''A1''"
  by (simp add: get_unique_photo_id_def photo_a1_def)




section \<open>Later states of a run\<close>

text \<open>
  The states a run can be in after a given state: reached by rounds of the three loops
  and by log entries (the headings, totals and errors between them), in any order.
\<close>

inductive later :: "lib \<Rightarrow> string \<Rightarrow> bool \<Rightarrow> rstate \<Rightarrow> rstate \<Rightarrow> bool"
  for L :: lib and output_dir :: string and use_loc :: bool and st :: rstate where
  later_refl: "later L output_dir use_loc st st"
| later_round: "later L output_dir use_loc st st' \<Longrightarrow>
     later L output_dir use_loc st (process_one L output_dir use_loc sec album_name n_total i p st')"
| later_entry: "later L output_dir use_loc st st' \<Longrightarrow>
     later L output_dir use_loc st (log_entry m lvl st')"

text \<open>The pieces of \<^verbatim>\<open>download_all_photos\<close> around the loops over the personal library and
  over the shared photos.\<close>

definition personal_header :: "nat \<Rightarrow> rstate \<Rightarrow> rstate" where
  "personal_header n st =
     info ''Directory layout: Personal/<TYPE>/<YEAR>/filename''
       (info ''Progress format: [Current/Total] [Status] [Filename] -> [Filepath]''
         (log_entry (Line ''Found photos in personal library'' [] [n]) INFO
            (rule_line (info ''Starting Personal Library Download'' (rule_line st)))))"

definition personal_footer :: "rstate \<Rightarrow> rstate" where
  "personal_footer st =
     rule_line (log_entry (Line ''Personal Library Complete'' [] [total_downloaded st, errors st]) INFO st)"

definition shared_header :: "nat \<Rightarrow> rstate \<Rightarrow> rstate" where
  "shared_header n st =
     info ''Directory layout: Shared_With_Me/<TYPE>/<YEAR>/filename''
       (log_entry (Line ''Found shared photos'' [] [n]) INFO
          (rule_line (info ''Starting Photos Shared With You Download'' (rule_line st))))"

definition shared_footer :: "rstate \<Rightarrow> rstate" where
  "shared_footer st =
     rule_line (log_entry (Line ''Shared Photos Complete'' [] [total_downloaded st, errors st]) INFO st)"

lemma later_trans:
  "later L out loc st1 st2 \<Longrightarrow> later L out loc st0 st1 \<Longrightarrow> later L out loc st0 st2"
  by (induction rule: later.induct) (auto intro: later.intros)


lemma later_info: "later L out loc st st' \<Longrightarrow> later L out loc st (info text st')"
  unfolding info_def by (rule later_entry)

lemma later_rule_line: "later L out loc st st' \<Longrightarrow> later L out loc st (rule_line st')"
  unfolding rule_line_def by (rule later_info)

lemma later_photos_loop:
  "later L out loc st st' \<Longrightarrow> later L out loc st (photos_loop L out loc sec alb n i photos st')"
  by (induction photos arbitrary: i st') (auto intro: later_round)

lemma later_albums_loop:
  "later L out loc st st' \<Longrightarrow> later L out loc st (albums_loop L out loc n idx albums st')"
proof (induction albums arbitrary: idx st')
  case Nil
  then show ?case by simp
next
  case (Cons al rest)
  show ?case
  proof (cases "album_photos al")
    case None
    with Cons.IH [OF later_entry [OF Cons.prems]] show ?thesis by simp
  next
    case (Some photos)
    with Cons.IH [OF later_entry [OF later_photos_loop [OF later_entry [OF Cons.prems]]]]
    show ?thesis by simp
  qed
qed

lemma later_personal_section:
  "later L out loc st st' \<Longrightarrow> later L out loc st (personal_section L a out loc st')"
  by (auto simp: personal_section_def Let_def split: option.splits
           intro!: later_rule_line later_info later_entry later_photos_loop)

lemma later_shared_section:
  "later L out loc st st' \<Longrightarrow> later L out loc st (shared_section L a out loc st')"
  by (auto simp: shared_section_def Let_def split: option.splits
           intro!: later_rule_line later_info later_entry later_photos_loop)

lemma later_albums_section:
  "later L out loc st st' \<Longrightarrow> later L out loc st (albums_section L a out loc st')"
  by (auto simp: albums_section_def Let_def split: option.splits
           intro!: later_rule_line later_info later_entry later_albums_loop)

lemma later_personal_header: "later L out loc st st' \<Longrightarrow> later L out loc st (personal_header n st')"
  unfolding personal_header_def by (intro later_info later_entry later_rule_line)



lemma later_shared_footer: "later L out loc st st' \<Longrightarrow> later L out loc st (shared_footer st')"
  unfolding shared_footer_def by (intro later_info later_entry later_rule_line)





section \<open>What the steps after the uniqueness check do to the files\<close>













section \<open>Equal keys: at most one commit\<close>




section \<open>Two assets without an id in two sections\<close>

text \<open>
  Two assets without an id, taken at the same second, with the same bytes and different
  file names; the first is in the personal library, the second among the shared photos.
\<close>

definition photo_b1 :: photo where
  "photo_b1 = photo_a1\<lparr>id_attr := None\<rparr>"

definition photo_b2 :: photo where
  "photo_b2 = photo_a1\<lparr>id_attr := None, filename_attr := Some ''IMG_2.heic''\<rparr>"


definition b1_committed :: pstate where
  "b1_committed =
     empty_world\<lparr>files := [(''/out/Personal/HEIC/2024/20240301_100000_IMG_1.heic'',
                             \<lparr>content = ''abc'', mtime = Some sample_date\<rparr>)],
                  dirs := [''/out/Personal/HEIC/2024'', ''/out/Personal/HEIC''],
                  tmp_next := 1,
                  unique_photo_keys := {(None, ''20240301_100000'', ''abc'', 3)},
                  stats := [(''Personal'', [(''HEIC'', Years [(Year 2024, 1)])])]\<rparr>"

definition b1_refused :: pstate where
  "b1_refused =
     refusing_world\<lparr>dirs := [''/out/Personal/HEIC/2024'', ''/out/Personal/HEIC''],
                    tmp := [(0, ''abc'')], tmp_next := 1,
                    unique_photo_keys := {(None, ''20240301_100000'', ''abc'', 3)}\<rparr>"

text \<open>The rounds of the two assets in \<^verbatim>\<open>download_all_photos\<close> on a disk \<open>w\<close>, and the state
  between them: the end of the personal section and the start of the next one.\<close>

definition first_round :: "pstate \<Rightarrow> rstate" where
  "first_round w =
     process_one sample_lib ''/out'' False Personal None 1 1 photo_b1
       (personal_header 1 (initial_state w))"

definition next_section :: "pstate \<Rightarrow> rstate" where
  "next_section w = shared_header 1 (personal_footer (first_round w))"

definition second_round :: "pstate \<Rightarrow> rstate" where
  "second_round w =
     process_one sample_lib ''/out'' False Shared_With_Me None 1 1 photo_b2 (next_section w)"



lemma b1_run:
  "process_photo sample_lib photo_b1 ''/out'' ''Personal'' None False empty_world
     = (Success False ''/out/Personal/HEIC/2024/20240301_100000_IMG_1.heic'', b1_committed)"
  by code_simp

lemma b2_run:
  "process_photo sample_lib photo_b2 ''/out'' ''Shared_With_Me'' None False b1_committed
     = (Duplicate,
        b1_committed\<lparr>dirs := [''/out/Shared_With_Me/HEIC/2024'', ''/out/Shared_With_Me/HEIC'',
                               ''/out/Personal/HEIC/2024'', ''/out/Personal/HEIC''],
                      tmp_next := 2\<rparr>)"
  by code_simp

lemma b1_refused_run:
  "process_photo sample_lib photo_b1 ''/out'' ''Personal'' None False refusing_world
     = (Failed Move_failed, b1_refused)"
  by code_simp

lemma b2_refused_run:
  "process_photo sample_lib photo_b2 ''/out'' ''Shared_With_Me'' None False b1_refused
     = (Duplicate,
        b1_refused\<lparr>dirs := [''/out/Shared_With_Me/HEIC/2024'', ''/out/Shared_With_Me/HEIC'',
                             ''/out/Personal/HEIC/2024'', ''/out/Personal/HEIC''],
                    tmp_next := 2\<rparr>)"
  by code_simp

lemma section_types:
  "photo_type_of Personal = ''Personal''" "photo_type_of Shared_With_Me = ''Shared_With_Me''"
  "photo_type_of Shared_Albums = ''Shared_Albums''"
  by (simp_all add: photo_type_of_def)

text \<open>Headings and totals are log entries: they leave everything but the log as it is.\<close>

lemma personal_header_fields:
  "ps (personal_header n st) = ps st \<and> processed_ids (personal_header n st) = processed_ids st
   \<and> total_downloaded (personal_header n st) = total_downloaded st
   \<and> errors (personal_header n st) = errors st \<and> skipped (personal_header n st) = skipped st"
  by (simp add: personal_header_def info_def rule_line_def log_entry_def)

lemma personal_footer_fields:
  "ps (personal_footer st) = ps st \<and> processed_ids (personal_footer st) = processed_ids st
   \<and> total_downloaded (personal_footer st) = total_downloaded st
   \<and> errors (personal_footer st) = errors st \<and> skipped (personal_footer st) = skipped st"
  by (simp add: personal_footer_def info_def rule_line_def log_entry_def)

lemma shared_header_fields:
  "ps (shared_header n st) = ps st \<and> processed_ids (shared_header n st) = processed_ids st
   \<and> total_downloaded (shared_header n st) = total_downloaded st
   \<and> errors (shared_header n st) = errors st \<and> skipped (shared_header n st) = skipped st"
  by (simp add: shared_header_def info_def rule_line_def log_entry_def)

lemma next_section_fields:
  "ps (next_section w) = ps (first_round w) \<and> processed_ids (next_section w) = processed_ids (first_round w)
   \<and> total_downloaded (next_section w) = total_downloaded (first_round w)
   \<and> errors (next_section w) = errors (first_round w)
   \<and> skipped (next_section w) = skipped (first_round w)"
  by (simp add: next_section_def shared_header_fields personal_footer_fields)



lemma no_id_uids:
  "get_unique_photo_id photo_b1 = ''20240301_100000_IMG_1.heic''
   \<and> get_unique_photo_id photo_b2 = ''20240301_100000_IMG_2.heic''"
  by (simp add: get_unique_photo_id_def filename_or_unknown_def photo_b1_def photo_b2_def photo_a1_def
                strftime_compact_def sample_date_def zero_pad_def str_nat.simps digit_char_def)

text \<open>On an empty disk the first is committed and the second is rejected by its key.\<close>

lemma first_round_empty:
  "ps (first_round empty_world) = b1_committed
   \<and> total_downloaded (first_round empty_world) = 1
   \<and> errors (first_round empty_world) = 0
   \<and> skipped (first_round empty_world) = 0
   \<and> processed_ids (first_round empty_world) = {''20240301_100000_IMG_1.heic''}"
proof -
  let ?st = "personal_header 1 (initial_state empty_world)"
  have start: "ps ?st = empty_world"
    by (simp add: personal_header_fields initial_state_def empty_world_def)
  have fresh: "get_unique_photo_id photo_b1 \<notin> processed_ids ?st"
    by (simp add: personal_header_fields initial_state_def)
  have run: "process_photo sample_lib photo_b1 ''/out'' (photo_type_of Personal) None False (ps ?st)
             = (Success False ''/out/Personal/HEIC/2024/20240301_100000_IMG_1.heic'', b1_committed)"
    by (simp only: start section_types b1_run)
  from process_one_processed [OF fresh run, of 1 1]
  show ?thesis
    by (simp add: first_round_def is_success_def personal_header_fields initial_state_def no_id_uids)
qed

lemma second_round_empty:
  "ps (second_round empty_world)
     = b1_committed\<lparr>dirs := [''/out/Shared_With_Me/HEIC/2024'', ''/out/Shared_With_Me/HEIC'',
                             ''/out/Personal/HEIC/2024'', ''/out/Personal/HEIC''],
                    tmp_next := 2\<rparr>
   \<and> total_downloaded (second_round empty_world) = 1
   \<and> errors (second_round empty_world) = 1
   \<and> skipped (second_round empty_world) = 0"
proof -
  let ?st = "next_section empty_world"
  have fresh: "get_unique_photo_id photo_b2 \<notin> processed_ids ?st"
    by (simp add: next_section_fields first_round_empty no_id_uids)
  have run: "process_photo sample_lib photo_b2 ''/out'' (photo_type_of Shared_With_Me) None False (ps ?st)
             = (Duplicate,
                b1_committed\<lparr>dirs := [''/out/Shared_With_Me/HEIC/2024'', ''/out/Shared_With_Me/HEIC'',
                                       ''/out/Personal/HEIC/2024'', ''/out/Personal/HEIC''],
                              tmp_next := 2\<rparr>)"
    by (simp only: next_section_fields first_round_empty section_types b2_run)
  from process_one_processed [OF fresh run, of 1 1]
  show ?thesis
    by (simp add: second_round_def is_success_def next_section_fields first_round_empty)
qed

text \<open>On the disk that refuses the destination of the first, the move of the first fails
  and the second is rejected by its key all the same.\<close>

lemma first_round_refused:
  "ps (first_round refusing_world) = b1_refused
   \<and> total_downloaded (first_round refusing_world) = 0
   \<and> errors (first_round refusing_world) = 1
   \<and> skipped (first_round refusing_world) = 0
   \<and> processed_ids (first_round refusing_world) = {}"
proof -
  let ?st = "personal_header 1 (initial_state refusing_world)"
  have start: "ps ?st = refusing_world"
    by (simp add: personal_header_fields initial_state_def refusing_world_def empty_world_def)
  have fresh: "get_unique_photo_id photo_b1 \<notin> processed_ids ?st"
    by (simp add: personal_header_fields initial_state_def)
  have run: "process_photo sample_lib photo_b1 ''/out'' (photo_type_of Personal) None False (ps ?st)
             = (Failed Move_failed, b1_refused)"
    by (simp only: start section_types b1_refused_run)
  from process_one_processed [OF fresh run, of 1 1]
  show ?thesis
    by (simp add: first_round_def is_success_def personal_header_fields initial_state_def)
qed

lemma second_round_refused:
  "total_downloaded (second_round refusing_world) = 0
   \<and> errors (second_round refusing_world) = 2
   \<and> skipped (second_round refusing_world) = 0
   \<and> files (ps (second_round refusing_world)) = []"
proof -
  let ?st = "next_section refusing_world"
  have fresh: "get_unique_photo_id photo_b2 \<notin> processed_ids ?st"
    by (simp add: next_section_fields first_round_refused)
  have run: "process_photo sample_lib photo_b2 ''/out'' (photo_type_of Shared_With_Me) None False (ps ?st)
             = (Duplicate,
                b1_refused\<lparr>dirs := [''/out/Shared_With_Me/HEIC/2024'', ''/out/Shared_With_Me/HEIC'',
                                     ''/out/Personal/HEIC/2024'', ''/out/Personal/HEIC''],
                            tmp_next := 2\<rparr>)"
    by (simp only: next_section_fields first_round_refused section_types b2_refused_run)
  have none: "files (b1_refused\<lparr>dirs := [''/out/Shared_With_Me/HEIC/2024'', ''/out/Shared_With_Me/HEIC'',
                                     ''/out/Personal/HEIC/2024'', ''/out/Personal/HEIC''],
                            tmp_next := 2\<rparr>) = []"
    by (simp add: b1_refused_def refusing_world_def empty_world_def)
  from process_one_processed [OF fresh run, of 1 1]
  show ?thesis
    by (simp add: second_round_def is_success_def next_section_fields first_round_refused none)
qed


end
